(* ===== verification/Prelude.thy ===== *)
theory Prelude
  imports Main "HOL-Library.AList"
begin

text \<open>
  Shared vocabulary of the operator model: the error values that the Go code
  returns or panics with, Go maps of strings (labels, annotations, selectors)
  with their nil state, the result type of a store-threading operation, and the
  generic list and map lemmas that the component theories use.
\<close>

named_theorems gomap_simps "evaluation rules of the Go map model"
named_theorems store_simps "characteristic equations of the client calls"

section \<open>Errors\<close>

text \<open>
  Every way a call of the operator can end other than with \<open>nil\<close>:
  errors returned by the API server (\<open>ENotFound\<close>, \<open>EConflict\<close>,
  \<open>EAlreadyExists\<close>), a transient failure of the connection
  (\<open>ETransient\<close>), a template that cannot be read or decoded (\<open>EParse\<close>),
  the error of \<open>controllerutil\<close> when an owner reference is invalid or
  a mutate function renames its object (\<open>EOwner\<close>, \<open>EMutateKey\<close>),
  and a Go runtime panic (\<open>EPanic\<close>), which ends the reconcile pass as well.
\<close>

datatype error =
    ENotFound
  | EConflict
  | EAlreadyExists
  | ETransient
  | EParse string
  | EOwner
  | EMutateKey
  | EPanic string

section \<open>Go maps of strings\<close>

text \<open>
  A Go \<open>map[string]string\<close> is either \<open>nil\<close> (\<open>None\<close>) or a map, represented
  as an association list updated with \<open>AList.update\<close> (a key is replaced in
  place, a new key is appended). Reading a nil map gives the zero value,
  writing to it panics.
\<close>

type_synonym gomap = "(string \<times> string) list option"

definition gm_get :: "gomap \<Rightarrow> string \<Rightarrow> string option" where
  "gm_get m k = (case m of None \<Rightarrow> None | Some xs \<Rightarrow> map_of xs k)"

definition gm_put :: "gomap \<Rightarrow> string \<Rightarrow> string \<Rightarrow> error + gomap" where
  "gm_put m k v = (case m of
       None \<Rightarrow> Inl (EPanic ''assignment to entry in nil map'')
     | Some xs \<Rightarrow> Inr (Some (AList.update k v xs)))"

definition gm_keys :: "gomap \<Rightarrow> string list" where
  "gm_keys m = (case m of None \<Rightarrow> [] | Some xs \<Rightarrow> map fst xs)"

text \<open>
  \<open>equality.Semantic.DeepEqual\<close> compares maps as maps (order does not matter)
  and treats a nil map as equal to an empty one.
\<close>

definition gm_eq :: "gomap \<Rightarrow> gomap \<Rightarrow> bool" where
  "gm_eq a b = list_all (\<lambda>k. gm_get a k = gm_get b k) (gm_keys a @ gm_keys b)"

text \<open>\<open>make(map[string]string)\<close>.\<close>

abbreviation gm_empty :: gomap where
  "gm_empty \<equiv> Some []"

section \<open>Results of store-threading operations\<close>

text \<open>
  An operation of the reconciler runs against the cluster state \<open>'s\<close> and
  returns the Go pair \<open>(value, err)\<close> as a sum together with the state it
  leaves: writes made before an error stay (there is no rollback).
\<close>

type_synonym ('s, 'a) res = "(error + 'a) \<times> 's"

definition rbind :: "('s, 'a) res \<Rightarrow> ('a \<Rightarrow> 's \<Rightarrow> ('s, 'b) res) \<Rightarrow> ('s, 'b) res" where
  "rbind r f = (case r of (Inl e, s) \<Rightarrow> (Inl e, s) | (Inr a, s) \<Rightarrow> f a s)"

section \<open>Lemmas on Go maps\<close>

lemma gm_get_None [simp, gomap_simps]: "gm_get None k = None"
  by (simp add: gm_get_def)

lemma gm_get_Some [simp, gomap_simps]: "gm_get (Some xs) k = map_of xs k"
  by (simp add: gm_get_def)

lemma gm_put_None [simp, gomap_simps]:
  "gm_put None k v = Inl (EPanic ''assignment to entry in nil map'')"
  by (simp add: gm_put_def)

lemma gm_put_Some [simp, gomap_simps]: "gm_put (Some xs) k v = Inr (Some (AList.update k v xs))"
  by (simp add: gm_put_def)

lemma gm_put_Inr_iff: "gm_put m k v = Inr m' \<longleftrightarrow> (\<exists>xs. m = Some xs \<and> m' = Some (AList.update k v xs))"
  by (cases m) auto

lemma gm_get_put: "gm_put m k v = Inr m' \<Longrightarrow> gm_get m' j = (if j = k then Some v else gm_get m j)"
  by (auto simp: gm_put_Inr_iff update_conv')

lemma gm_keys_get: "k \<notin> set (gm_keys m) \<Longrightarrow> gm_get m k = None"
  by (cases m) (auto simp: gm_keys_def map_of_eq_None_iff)

text \<open>\<open>gm_eq\<close> is equality of the maps read by \<open>gm_get\<close>.\<close>

lemma gm_eq_iff: "gm_eq a b \<longleftrightarrow> gm_get a = gm_get b"
proof
  assume eq: "gm_eq a b"
  show "gm_get a = gm_get b"
  proof
    fix k
    show "gm_get a k = gm_get b k"
    proof (cases "k \<in> set (gm_keys a @ gm_keys b)")
      case True
      with eq show ?thesis by (auto simp: gm_eq_def list_all_iff)
    next
      case False
      then show ?thesis by (simp add: gm_keys_get)
    qed
  qed
next
  assume "gm_get a = gm_get b"
  then show "gm_eq a b" by (simp add: gm_eq_def list_all_iff)
qed

lemma gm_eq_refl [simp]: "gm_eq a a"
  by (simp add: gm_eq_iff)

lemma gm_eq_nil_empty [simp]: "gm_eq None gm_empty"
  by (simp add: gm_eq_iff fun_eq_iff)

lemma gm_put_idem:
  "gm_put m k v = Inr m' \<Longrightarrow> gm_put m' k v = Inr m'"
  by (auto simp: gm_put_Inr_iff)

section \<open>Lemmas on lists\<close>

declare update_conv' [simp] delete_conv' [simp]

lemma dropWhile_all_Nil: "\<forall>x\<in>set xs. P x \<Longrightarrow> dropWhile P xs = []"
  by simp

lemma list_all_AList_update:
  "P (k, v) \<Longrightarrow> list_all P al \<Longrightarrow> list_all P (AList.update k v al)"
  by (induction al) auto

lemma list_all_AList_delete: "list_all P al \<Longrightarrow> list_all P (AList.delete k al)"
  by (simp add: AList.delete_eq list_all_iff)

lemma distinct_AList_delete: "distinct (map fst al) \<Longrightarrow> distinct (map fst (AList.delete k al))"
  by (simp add: AList.distinct_delete)

lemma list_all_mono_pairs:
  "list_all P al \<Longrightarrow> (\<And>k v. P (k, v) \<Longrightarrow> Q (k, v)) \<Longrightarrow> list_all Q al"
  by (auto simp: list_all_iff)

section \<open>Lemmas on results\<close>

lemma rbind_Inl [simp]: "rbind (Inl e, s) f = (Inl e, s)"
  by (simp add: rbind_def)

lemma rbind_Inr [simp]: "rbind (Inr a, s) f = f a s"
  by (simp add: rbind_def)

end
