(* ===== verification/Objects.thy ===== *)
theory Objects
  imports Prelude
begin

text \<open>
  The Kubernetes objects the operator reads and writes, with the fields the
  code touches: object metadata (\<open>metav1.ObjectMeta\<close>), owner references,
  the specs of a \<open>corev1.Service\<close> and an \<open>appsv1.StatefulSet\<close> down to the
  containers' environment, and \<open>equality.Semantic.DeepEqual\<close> on them.
  It also holds the \<open>controllerutil\<close> helpers of controller-runtime the
  reconciler calls on metadata (finalizers and owner references); they are not
  code of this repository and are modelled after the library's behaviour.
\<close>

section \<open>Object shapes\<close>

text \<open>
  \<open>metav1.OwnerReference\<close>: \<open>or_controller\<close> is the \<open>Controller *bool\<close> field,
  \<open>None\<close> when it is nil.
\<close>

record owner_ref =
  or_apiVersion :: string
  or_kind :: string
  or_name :: string
  or_uid :: string
  or_controller :: "bool option"

text \<open>
  \<open>metav1.ObjectMeta\<close>: the resource version is a counter of the store,
  \<open>m_deletion\<close> the deletion timestamp (\<open>None\<close> while it is zero).
\<close>

record objmeta =
  m_name :: string
  m_namespace :: string
  m_uid :: string
  m_rv :: nat
  m_labels :: gomap
  m_annotations :: gomap
  m_finalizers :: "string list"
  m_deletion :: "nat option"
  m_owners :: "owner_ref list"

text \<open>\<open>corev1.EnvVarSource\<close>, the \<open>ValueFrom\<close> of an environment variable.\<close>

datatype env_source =
    FieldRef string
  | ResourceFieldRef string
  | ConfigMapKeyRef string string
  | SecretKeyRef string string

record env_var =
  e_name :: string
  e_value :: string
  e_valueFrom :: "env_source option"

record container =
  c_name :: string
  c_image :: string
  c_env :: "env_var list"

record pod_spec =
  p_hostname :: string
  p_containers :: "container list"

record pod_template =
  pt_labels :: gomap
  pt_spec :: pod_spec

text \<open>\<open>metav1.LabelSelector\<close>; the statefulset holds it by pointer.\<close>

record label_selector =
  matchLabels :: gomap

record sts_spec =
  t_replicas :: "nat option"
  t_selector :: "label_selector option"
  t_serviceName :: string
  t_template :: pod_template

record svc_spec =
  s_selector :: gomap
  s_clusterIP :: string
  s_ports :: "nat list"

text \<open>
  A stored object is its metadata and the spec of its kind; the two Go types the
  operator handles are the two constructors of \<open>kspec\<close>.
\<close>

datatype kspec = SvcSpec svc_spec | StsSpec sts_spec

datatype kind = KService | KStatefulSet

record kobj =
  meta :: objmeta
  spec :: kspec

text \<open>\<open>client.ObjectKey\<close> extended by the kind the Go type fixes.\<close>

type_synonym objkey = "kind \<times> string \<times> string"

primrec kind_of :: "kspec \<Rightarrow> kind" where
  "kind_of (SvcSpec s) = KService"
| "kind_of (StsSpec s) = KStatefulSet"

definition key_of :: "kobj \<Rightarrow> objkey" where
  "key_of ob = (kind_of (spec ob), m_namespace (meta ob), m_name (meta ob))"

text \<open>Group, version and kind of the two Go types in the scheme.\<close>

primrec api_version :: "kind \<Rightarrow> string" where
  "api_version KService = ''v1''"
| "api_version KStatefulSet = ''apps/v1''"

primrec kind_name :: "kind \<Rightarrow> string" where
  "kind_name KService = ''Service''"
| "kind_name KStatefulSet = ''StatefulSet''"

text \<open>\<open>schema.ParseGroupVersion(..).Group\<close>: the part before the slash, empty for the core group.\<close>

definition gv_group :: "string \<Rightarrow> string" where
  "gv_group s = (if CHR ''/'' \<in> set s then takeWhile (\<lambda>c. c \<noteq> CHR ''/'') s else [])"

text \<open>Fresh metadata with a name, a namespace and labels, as a Go composite literal.\<close>

definition new_meta :: "string \<Rightarrow> string \<Rightarrow> gomap \<Rightarrow> objmeta" where
  "new_meta n ns l = \<lparr>m_name = n, m_namespace = ns, m_uid = [], m_rv = 0, m_labels = l,
     m_annotations = None, m_finalizers = [], m_deletion = None, m_owners = []\<rparr>"

section \<open>Semantic deep equality\<close>

text \<open>
  \<open>equality.Semantic.DeepEqual\<close> as \<open>controllerutil.CreateOrUpdate\<close> uses it
  to decide whether an update is needed: fields compared by value, maps by
  \<open>gm_eq\<close>, a nil selector pointer equal only to a nil one.
\<close>

definition meta_eq :: "objmeta \<Rightarrow> objmeta \<Rightarrow> bool" where
  "meta_eq a b \<longleftrightarrow> m_name a = m_name b \<and> m_namespace a = m_namespace b \<and> m_uid a = m_uid b
     \<and> m_rv a = m_rv b \<and> gm_eq (m_labels a) (m_labels b)
     \<and> gm_eq (m_annotations a) (m_annotations b) \<and> m_finalizers a = m_finalizers b
     \<and> m_deletion a = m_deletion b \<and> m_owners a = m_owners b"

definition sel_eq :: "label_selector option \<Rightarrow> label_selector option \<Rightarrow> bool" where
  "sel_eq a b = (case (a, b) of
       (None, None) \<Rightarrow> True
     | (Some x, Some y) \<Rightarrow> gm_eq (matchLabels x) (matchLabels y)
     | _ \<Rightarrow> False)"

definition sts_spec_eq :: "sts_spec \<Rightarrow> sts_spec \<Rightarrow> bool" where
  "sts_spec_eq a b \<longleftrightarrow> t_replicas a = t_replicas b \<and> sel_eq (t_selector a) (t_selector b)
     \<and> t_serviceName a = t_serviceName b
     \<and> gm_eq (pt_labels (t_template a)) (pt_labels (t_template b))
     \<and> pt_spec (t_template a) = pt_spec (t_template b)"

definition svc_spec_eq :: "svc_spec \<Rightarrow> svc_spec \<Rightarrow> bool" where
  "svc_spec_eq a b \<longleftrightarrow> gm_eq (s_selector a) (s_selector b) \<and> s_clusterIP a = s_clusterIP b
     \<and> s_ports a = s_ports b"

fun kspec_eq :: "kspec \<Rightarrow> kspec \<Rightarrow> bool" where
  "kspec_eq (SvcSpec a) (SvcSpec b) = svc_spec_eq a b"
| "kspec_eq (StsSpec a) (StsSpec b) = sts_spec_eq a b"
| "kspec_eq _ _ = False"

definition DeepEqual :: "kobj \<Rightarrow> kobj \<Rightarrow> bool" where
  "DeepEqual a b \<longleftrightarrow> meta_eq (meta a) (meta b) \<and> kspec_eq (spec a) (spec b)"

section \<open>controllerutil: finalizers\<close>

definition ContainsFinalizer :: "kobj \<Rightarrow> string \<Rightarrow> bool" where
  "ContainsFinalizer ob f \<longleftrightarrow> f \<in> set (m_finalizers (meta ob))"

definition AddFinalizer :: "kobj \<Rightarrow> string \<Rightarrow> kobj" where
  "AddFinalizer ob f = (if ContainsFinalizer ob f then ob
     else ob\<lparr>meta := (meta ob)\<lparr>m_finalizers := m_finalizers (meta ob) @ [f]\<rparr>\<rparr>)"

text \<open>The library's loop deletes every occurrence and keeps the order of the rest.\<close>

definition RemoveFinalizer :: "kobj \<Rightarrow> string \<Rightarrow> kobj" where
  "RemoveFinalizer ob f =
     ob\<lparr>meta := (meta ob)\<lparr>m_finalizers := filter (\<lambda>e. e \<noteq> f) (m_finalizers (meta ob))\<rparr>\<rparr>"

section \<open>controllerutil: owner references\<close>

text \<open>\<open>referSameObject\<close>: same API group, kind and name (the UID is not compared).\<close>

definition referSameObject :: "owner_ref \<Rightarrow> owner_ref \<Rightarrow> bool" where
  "referSameObject a b \<longleftrightarrow> gv_group (or_apiVersion a) = gv_group (or_apiVersion b)
     \<and> or_kind a = or_kind b \<and> or_name a = or_name b"

text \<open>\<open>upsertOwnerRef\<close>: replace the first reference to the same object, else append.\<close>

fun upsertOwnerRef :: "owner_ref \<Rightarrow> owner_ref list \<Rightarrow> owner_ref list" where
  "upsertOwnerRef r [] = [r]"
| "upsertOwnerRef r (x # xs) = (if referSameObject x r then r # xs else x # upsertOwnerRef r xs)"

text \<open>\<open>validateOwner\<close>: a namespaced owner must live in the object's namespace.\<close>

definition validateOwner :: "kobj \<Rightarrow> kobj \<Rightarrow> bool" where
  "validateOwner owner ob \<longleftrightarrow> m_namespace (meta owner) = []
     \<or> m_namespace (meta owner) = m_namespace (meta ob)"

definition owner_ref_of :: "kobj \<Rightarrow> owner_ref" where
  "owner_ref_of owner = \<lparr>or_apiVersion = api_version (kind_of (spec owner)),
     or_kind = kind_name (kind_of (spec owner)), or_name = m_name (meta owner),
     or_uid = m_uid (meta owner), or_controller = None\<rparr>"

text \<open>
  \<open>SetOwnerReference\<close> (not \<open>SetControllerReference\<close>): the reference it
  writes leaves \<open>Controller\<close> nil.
\<close>

definition SetOwnerReference :: "kobj \<Rightarrow> kobj \<Rightarrow> error + kobj" where
  "SetOwnerReference owner ob =
     (if \<not> validateOwner owner ob then Inl EOwner
      else Inr (ob\<lparr>meta := (meta ob)\<lparr>m_owners := upsertOwnerRef (owner_ref_of owner) (m_owners (meta ob))\<rparr>\<rparr>))"

section \<open>Lemmas: metadata helpers\<close>

lemma key_of_meta_update:
  "m_name m = m_name (meta ob) \<Longrightarrow> m_namespace m = m_namespace (meta ob) \<Longrightarrow>
   key_of (ob\<lparr>meta := m\<rparr>) = key_of ob"
  by (simp add: key_of_def)

lemma meta_AddFinalizer [simp]:
  "meta (AddFinalizer ob f) = (meta ob)\<lparr>m_finalizers :=
     (if f \<in> set (m_finalizers (meta ob)) then m_finalizers (meta ob) else m_finalizers (meta ob) @ [f])\<rparr>"
  by (simp add: AddFinalizer_def ContainsFinalizer_def)

lemma meta_RemoveFinalizer [simp]:
  "meta (RemoveFinalizer ob f) = (meta ob)\<lparr>m_finalizers := filter (\<lambda>e. e \<noteq> f) (m_finalizers (meta ob))\<rparr>"
  by (simp add: RemoveFinalizer_def)

lemma ContainsFinalizer_AddFinalizer [simp]: "ContainsFinalizer (AddFinalizer ob f) f"
  by (simp add: AddFinalizer_def ContainsFinalizer_def)

lemma AddFinalizer_present: "ContainsFinalizer ob f \<Longrightarrow> AddFinalizer ob f = ob"
  by (simp add: AddFinalizer_def)

lemma AddFinalizer_idem [simp]: "AddFinalizer (AddFinalizer ob f) f = AddFinalizer ob f"
  by (simp add: AddFinalizer_present)

lemma not_ContainsFinalizer_RemoveFinalizer [simp]: "\<not> ContainsFinalizer (RemoveFinalizer ob f) f"
  by (simp add: RemoveFinalizer_def ContainsFinalizer_def)

lemma RemoveFinalizer_absent: "\<not> ContainsFinalizer ob f \<Longrightarrow> RemoveFinalizer ob f = ob"
proof -
  assume "\<not> ContainsFinalizer ob f"
  then have "filter (\<lambda>e. e \<noteq> f) (m_finalizers (meta ob)) = m_finalizers (meta ob)"
    by (auto simp: ContainsFinalizer_def filter_id_conv)
  then show ?thesis by (simp add: RemoveFinalizer_def)
qed

lemma key_of_AddFinalizer [simp]: "key_of (AddFinalizer ob f) = key_of ob"
  by (simp add: AddFinalizer_def key_of_def)

lemma key_of_RemoveFinalizer [simp]: "key_of (RemoveFinalizer ob f) = key_of ob"
  by (simp add: RemoveFinalizer_def key_of_def)

lemma spec_AddFinalizer [simp]: "spec (AddFinalizer ob f) = spec ob"
  by (simp add: AddFinalizer_def)

lemma spec_RemoveFinalizer [simp]: "spec (RemoveFinalizer ob f) = spec ob"
  by (simp add: RemoveFinalizer_def)

lemma annotations_AddFinalizer [simp]:
  "m_annotations (meta (AddFinalizer ob f)) = m_annotations (meta ob)"
  by (simp add: AddFinalizer_def)

lemma other_finalizers_RemoveFinalizer:
  "g \<noteq> f \<Longrightarrow> ContainsFinalizer (RemoveFinalizer ob f) g = ContainsFinalizer ob g"
  by (auto simp: RemoveFinalizer_def ContainsFinalizer_def)

lemma referSameObject_refl [simp]: "referSameObject r r"
  by (simp add: referSameObject_def)

lemma upsertOwnerRef_member: "r \<in> set (upsertOwnerRef r xs)"
  by (induction xs) auto

lemma upsertOwnerRef_length: "length (upsertOwnerRef r xs) \<le> Suc (length xs)"
  by (induction xs) auto

lemma upsertOwnerRef_idem: "upsertOwnerRef r (upsertOwnerRef r xs) = upsertOwnerRef r xs"
  by (induction xs) auto

lemma upsertOwnerRef_subset: "set (upsertOwnerRef r xs) \<subseteq> insert r (set xs)"
  by (induction xs) auto

lemma SetOwnerReference_same_ns:
  "m_namespace (meta owner) = m_namespace (meta ob) \<Longrightarrow>
   SetOwnerReference owner ob =
     Inr (ob\<lparr>meta := (meta ob)\<lparr>m_owners := upsertOwnerRef (owner_ref_of owner) (m_owners (meta ob))\<rparr>\<rparr>)"
  by (simp add: SetOwnerReference_def validateOwner_def)

lemma kspec_eq_refl [simp]: "kspec_eq s s"
  by (cases s) (simp_all add: svc_spec_eq_def sts_spec_eq_def sel_eq_def split: option.splits)

lemma kspec_eq_kind: "kspec_eq a b \<Longrightarrow> kind_of a = kind_of b"
  by (cases a; cases b) simp_all

lemma DeepEqual_refl [simp]: "DeepEqual ob ob"
  by (simp add: DeepEqual_def meta_eq_def)

lemma DeepEqual_key: "DeepEqual a b \<Longrightarrow> key_of a = key_of b"
  by (auto simp: DeepEqual_def meta_eq_def key_of_def dest: kspec_eq_kind)

end
