(* ===== verification/Naming.thy ===== *)
theory Naming
  imports Objects
begin

text \<open>
  The constants of \<open>pkg/controller\<close> and the pure naming functions: the
  annotation and finalizer keys, \<open>strings.ToLower\<close> as the enable check uses
  it, the child name \<open><name>-tailscale\<close> and \<open>hostName\<close>. Lemmas: which
  annotation values enable a service, injectivity and length of the derived
  names, and the panic of \<open>hostName\<close> on a short UID.
\<close>

section \<open>Constants (controller.go, tailscale.go)\<close>

definition enableAnnotation :: string where
  "enableAnnotation = ''tailscale.maisem.dev/enable''"

definition ipAnnotation :: string where
  "ipAnnotation = ''tailscale.maisem.dev/ip''"

definition deviceIDAnnotation :: string where
  "deviceIDAnnotation = ''tailscale.maisem.dev/deviceID''"

definition finalizer :: string where
  "finalizer = ''tailscale.maisem.dev/finalizer''"

definition destIPKey :: string where
  "destIPKey = ''DEST_IP''"

section \<open>strings.ToLower\<close>

text \<open>
  ASCII lowering of one byte. Go lowers Unicode code points; the only non-ASCII
  code points whose lower case is ASCII are the Kelvin sign and the dotted
  capital I, which give \<open>k\<close> and \<open>i\<close>, so for the comparison with
  \<open>"true"\<close> that the reconciler makes, lowering the ASCII bytes and keeping
  every other byte decides the same.
\<close>

definition lower_char :: "char \<Rightarrow> char" where
  "lower_char c = (let n = (of_char c :: nat) in if 65 \<le> n \<and> n \<le> 90 then char_of (n + 32) else c)"

definition ToLower :: "string \<Rightarrow> string" where
  "ToLower s = map lower_char s"

section \<open>Child names (controller.go hostName, tailscale.go Sprintf)\<close>

text \<open>\<open>fmt.Sprintf("%s-tailscale", svc.Name)\<close>, the name of both children.\<close>

definition childName :: "kobj \<Rightarrow> string" where
  "childName svc = m_name (meta svc) @ ''-tailscale''"

text \<open>
  \<open>fmt.Sprintf("%s-%s", svc.Name, string(svc.UID)[:8])\<close>: slicing a UID
  shorter than 8 bytes panics.
\<close>

definition hostName :: "kobj \<Rightarrow> error + string" where
  "hostName svc = (if length (m_uid (meta svc)) < 8 then Inl (EPanic ''slice bounds out of range'')
     else Inr (m_name (meta svc) @ ''-'' @ take 8 (m_uid (meta svc))))"

section \<open>Lemmas: lowering\<close>

lemma char_of_eq_of_char: "(k::nat) < 256 \<Longrightarrow> c = char_of k \<longleftrightarrow> of_char c = k"
  by (metis char_of_char mod_less of_char_of)

lemma lower_char_letter:
  assumes "97 \<le> (of_char d :: nat)" and "(of_char d :: nat) \<le> 122"
    and up: "(of_char u :: nat) = of_char d - 32"
  shows "lower_char c = d \<longleftrightarrow> c = d \<or> c = u"
proof -
  let ?n = "of_char c :: nat" and ?m = "of_char d :: nat"
  have "c = u \<longleftrightarrow> ?n = of_char u" by simp
  with up have cu: "c = u \<longleftrightarrow> ?n = ?m - 32" by simp
  show ?thesis
  proof (cases "65 \<le> ?n \<and> ?n \<le> 90")
    case True
    then have "lower_char c = char_of (?n + 32)" by (simp add: lower_char_def)
    moreover have "(d = char_of (?n + 32)) \<longleftrightarrow> ?m = ?n + 32"
      using True by (subst char_of_eq_of_char) simp_all
    moreover have "c \<noteq> d" using True assms by auto
    ultimately show ?thesis using True assms cu by auto
  next
    case False
    then have "lower_char c = c" by (auto simp: lower_char_def Let_def)
    moreover have "c \<noteq> u"
      using False assms(1,2) unfolding cu by arith
    ultimately show ?thesis by auto
  qed
qed

lemma lower_char_t: "lower_char c = CHR ''t'' \<longleftrightarrow> c = CHR ''t'' \<or> c = CHR ''T''"
  by (rule lower_char_letter) simp_all

lemma lower_char_r: "lower_char c = CHR ''r'' \<longleftrightarrow> c = CHR ''r'' \<or> c = CHR ''R''"
  by (rule lower_char_letter) simp_all

lemma lower_char_u: "lower_char c = CHR ''u'' \<longleftrightarrow> c = CHR ''u'' \<or> c = CHR ''U''"
  by (rule lower_char_letter) simp_all

lemma lower_char_e: "lower_char c = CHR ''e'' \<longleftrightarrow> c = CHR ''e'' \<or> c = CHR ''E''"
  by (rule lower_char_letter) simp_all

lemma map_eq_four:
  "map f s = [w, x, y, z] \<longleftrightarrow> (\<exists>a b c d. s = [a, b, c, d] \<and> f a = w \<and> f b = x \<and> f c = y \<and> f d = z)"
  by (auto simp: map_eq_Cons_conv)

lemma ToLower_true_iff:
  "ToLower s = ''true'' \<longleftrightarrow>
     (\<exists>a b c d. s = [a, b, c, d] \<and> a \<in> {CHR ''t'', CHR ''T''} \<and> b \<in> {CHR ''r'', CHR ''R''}
        \<and> c \<in> {CHR ''u'', CHR ''U''} \<and> d \<in> {CHR ''e'', CHR ''E''})"
  unfolding ToLower_def map_eq_four lower_char_t lower_char_r lower_char_u lower_char_e
  by simp

section \<open>Lemmas: names\<close>

lemma childName_inj: "childName a = childName b \<longleftrightarrow> m_name (meta a) = m_name (meta b)"
  by (simp add: childName_def)

lemma hostName_Inr_iff:
  "hostName svc = Inr h \<longleftrightarrow>
     8 \<le> length (m_uid (meta svc)) \<and> h = m_name (meta svc) @ ''-'' @ take 8 (m_uid (meta svc))"
  by (auto simp: hostName_def)


section \<open>Claims\<close>

text \<open>
  C15. Host names: two host names built by \<open>hostName\<close> are equal exactly
  when the service names are equal and the UIDs agree on their first 8
  characters (the separator cannot be confused, since the suffix always has 8
  characters). So services with the same name whose UIDs share their first 8
  characters get the same pod hostname.
\<close>

theorem hostName_eq_iff:
  assumes a: "hostName a = Inr ha" and b: "hostName b = Inr hb"
  shows "ha = hb \<longleftrightarrow> m_name (meta a) = m_name (meta b) \<and> take 8 (m_uid (meta a)) = take 8 (m_uid (meta b))"
proof
  assume eq: "ha = hb"
  have la: "8 \<le> length (m_uid (meta a))" and ha: "ha = m_name (meta a) @ ''-'' @ take 8 (m_uid (meta a))"
    using a by (simp_all add: hostName_Inr_iff)
  have lb: "8 \<le> length (m_uid (meta b))" and hb: "hb = m_name (meta b) @ ''-'' @ take 8 (m_uid (meta b))"
    using b by (simp_all add: hostName_Inr_iff)
  have "length (m_name (meta a)) = length (m_name (meta b))"
    using arg_cong [OF eq, of length] ha hb la lb by simp
  then have "m_name (meta a) = m_name (meta b) \<and> ''-'' @ take 8 (m_uid (meta a)) = ''-'' @ take 8 (m_uid (meta b))"
    using eq ha hb by (simp add: append_eq_append_conv)
  then show "m_name (meta a) = m_name (meta b) \<and> take 8 (m_uid (meta a)) = take 8 (m_uid (meta b))"
    by simp
next
  assume "m_name (meta a) = m_name (meta b) \<and> take 8 (m_uid (meta a)) = take 8 (m_uid (meta b))"
  with a b show "ha = hb" by (simp add: hostName_Inr_iff)
qed

text \<open>
  C16. Bounds of \<open>hostName\<close>: a UID shorter than 8 bytes makes the slice
  \<open>[:8]\<close> panic; from 8 bytes on the host name exists and is exactly 9
  characters longer than the service name (a dash and 8 bytes of the UID),
  whatever the length of the UID.
\<close>

theorem hostName_bounds:
  "(length (m_uid (meta svc)) < 8 \<longrightarrow> hostName svc = Inl (EPanic ''slice bounds out of range''))
   \<and> (8 \<le> length (m_uid (meta svc)) \<longrightarrow>
        (\<exists>h. hostName svc = Inr h \<and> length h = length (m_name (meta svc)) + 9))"
  by (simp add: hostName_def)

end
