(* ===== verification/Env.thy ===== *)
theory Env
  imports Naming
begin

text \<open>
  \<open>addOrUpdateEnv\<close> (tailscale.go): set an environment variable of a container
  by name. The \<open>for i := range c.Env\<close> loop with its early \<open>return\<close> is the
  structural recursion \<open>addOrUpdateEnv_loop\<close>; reaching the end of the list is
  the \<open>append\<close> after the loop. Lemmas: equivalence with a split-at-first-match
  reference, the names and lengths it produces, that it never duplicates the key,
  the value a pod sees afterwards, and idempotence.
\<close>

section \<open>Definitions\<close>

definition literal_env :: "string \<Rightarrow> string \<Rightarrow> env_var" where
  "literal_env k v = \<lparr>e_name = k, e_value = v, e_valueFrom = None\<rparr>"

fun addOrUpdateEnv_loop :: "string \<Rightarrow> string \<Rightarrow> env_var list \<Rightarrow> env_var list" where
  "addOrUpdateEnv_loop key value [] = [literal_env key value]"
| "addOrUpdateEnv_loop key value (e # es) =
     (if e_name e \<noteq> key then e # addOrUpdateEnv_loop key value es
      else e\<lparr>e_value := value, e_valueFrom := None\<rparr> # es)"

definition addOrUpdateEnv :: "string \<Rightarrow> string \<Rightarrow> container \<Rightarrow> container" where
  "addOrUpdateEnv key value c = c\<lparr>c_env := addOrUpdateEnv_loop key value (c_env c)\<rparr>"

text \<open>
  Reference behaviour: split the list before the first entry named \<open>key\<close>;
  overwrite that entry with a literal value, or append one if there is none.
\<close>

definition set_env_ref :: "string \<Rightarrow> string \<Rightarrow> env_var list \<Rightarrow> env_var list" where
  "set_env_ref key value es =
     (case dropWhile (\<lambda>e. e_name e \<noteq> key) es of
        [] \<Rightarrow> es @ [literal_env key value]
      | e # rest \<Rightarrow> takeWhile (\<lambda>e. e_name e \<noteq> key) es
                     @ e\<lparr>e_value := value, e_valueFrom := None\<rparr> # rest)"

text \<open>
  The value a container sees for a variable: Kubernetes resolves repeated names
  in favour of the last entry, so the effective entry is the last one.
\<close>

definition env_effective :: "env_var list \<Rightarrow> string \<Rightarrow> (string \<times> env_source option) option" where
  "env_effective es k =
     (case filter (\<lambda>e. e_name e = k) es of
        [] \<Rightarrow> None
      | fs \<Rightarrow> Some (e_value (last fs), e_valueFrom (last fs)))"

definition count_name :: "string \<Rightarrow> env_var list \<Rightarrow> nat" where
  "count_name k es = length (filter (\<lambda>e. e_name e = k) es)"

section \<open>Lemmas\<close>

lemma addOrUpdateEnv_loop_ref: "addOrUpdateEnv_loop k v es = set_env_ref k v es"
  by (induction es) (auto simp: set_env_ref_def dropWhile_all_Nil split: list.splits)

lemma names_addOrUpdateEnv_loop:
  "map e_name (addOrUpdateEnv_loop k v es) =
     (if k \<in> set (map e_name es) then map e_name es else map e_name es @ [k])"
  by (induction es) (auto simp: literal_env_def)

lemma length_addOrUpdateEnv_loop:
  "length (addOrUpdateEnv_loop k v es) = length es + (if k \<in> e_name ` set es then 0 else 1)"
  by (induction es) auto

lemma others_addOrUpdateEnv_loop:
  "filter (\<lambda>e. e_name e \<noteq> k) (addOrUpdateEnv_loop k v es) = filter (\<lambda>e. e_name e \<noteq> k) es"
  by (induction es) (auto simp: literal_env_def)

lemma count_addOrUpdateEnv_loop:
  "count_name k (addOrUpdateEnv_loop k v es) = max 1 (count_name k es)"
  by (induction es) (auto simp: count_name_def literal_env_def)

lemma filter_key_addOrUpdateEnv_loop:
  "filter (\<lambda>e. e_name e = k) (addOrUpdateEnv_loop k v es) =
     (case filter (\<lambda>e. e_name e = k) es of
        [] \<Rightarrow> [literal_env k v]
      | e # rest \<Rightarrow> e\<lparr>e_value := v, e_valueFrom := None\<rparr> # rest)"
  by (induction es) (auto simp: literal_env_def split: list.splits)

lemma addOrUpdateEnv_loop_idem:
  "addOrUpdateEnv_loop k v (addOrUpdateEnv_loop k v es) = addOrUpdateEnv_loop k v es"
  by (induction es) (auto simp: literal_env_def)

lemma filter_name_other:
  "j \<noteq> k \<Longrightarrow> filter (\<lambda>e. e_name e = j) xs = filter (\<lambda>e. e_name e = j) (filter (\<lambda>e. e_name e \<noteq> k) xs)"
  by (induction xs) auto

lemma env_effective_other:
  "j \<noteq> k \<Longrightarrow> env_effective (addOrUpdateEnv_loop k v es) j = env_effective es j"
  by (simp add: env_effective_def filter_name_other [of j k] others_addOrUpdateEnv_loop)

section \<open>Claims\<close>

text \<open>
  C12. Equivalence with the reference: \<open>addOrUpdateEnv\<close> splits the
  environment before the first entry named \<open>key\<close>, overwrites that entry
  with the literal value (dropping any \<open>ValueFrom\<close>), or appends a literal
  entry when there is none.
\<close>

theorem addOrUpdateEnv_ref:
  "addOrUpdateEnv k v c = c\<lparr>c_env := set_env_ref k v (c_env c)\<rparr>"
  by (simp add: addOrUpdateEnv_def addOrUpdateEnv_loop_ref)

text \<open>
  C13. Set by key: on an environment with at most one entry named \<open>key\<close>,
  afterwards there is exactly one, the container sees the literal value with no
  value reference, and every other variable resolves as before.
\<close>

theorem addOrUpdateEnv_sets_key:
  assumes one: "count_name k (c_env c) \<le> 1"
  shows "count_name k (c_env (addOrUpdateEnv k v c)) = 1
     \<and> env_effective (c_env (addOrUpdateEnv k v c)) k = Some (v, None)
     \<and> (\<forall>j. j \<noteq> k \<longrightarrow> env_effective (c_env (addOrUpdateEnv k v c)) j = env_effective (c_env c) j)"
proof -
  let ?es = "c_env c"
  have rest: "filter (\<lambda>e. e_name e = k) ?es = [] \<or> (\<exists>e. filter (\<lambda>e. e_name e = k) ?es = [e])"
    using one by (cases "filter (\<lambda>e. e_name e = k) ?es") (auto simp: count_name_def)
  have "env_effective (addOrUpdateEnv_loop k v ?es) k = Some (v, None)"
    using rest by (auto simp: env_effective_def filter_key_addOrUpdateEnv_loop literal_env_def)
  moreover have "count_name k (addOrUpdateEnv_loop k v ?es) = 1"
    using one by (simp add: count_addOrUpdateEnv_loop)
  ultimately show ?thesis by (simp add: addOrUpdateEnv_def env_effective_other)
qed

text \<open>
  C14. Duplicates: when the environment already names \<open>key\<close> twice or more,
  only the first entry is overwritten; Kubernetes resolves repeated names in
  favour of the last entry, so the value the container sees does not change.
\<close>

theorem addOrUpdateEnv_duplicate_kept:
  assumes two: "2 \<le> count_name k (c_env c)"
  shows "env_effective (c_env (addOrUpdateEnv k v c)) k = env_effective (c_env c) k"
proof -
  obtain e rest where f: "filter (\<lambda>e. e_name e = k) (c_env c) = e # rest" and r: "rest \<noteq> []"
    using two by (cases "filter (\<lambda>e. e_name e = k) (c_env c)") (auto simp: count_name_def Suc_le_length_iff)
  then show ?thesis
    by (simp add: addOrUpdateEnv_def env_effective_def filter_key_addOrUpdateEnv_loop)
qed

end
