(* ===== verification/Builder.thy ===== *)
theory Builder
  imports Env
begin

text \<open>
  The desired state of the two children (tailscale.go \<open>reconcileService\<close> and
  \<open>reconcileStatefulSet\<close>, the parts that do not touch the store): the parsed
  templates, the in-memory patch of the statefulset template, the literal child
  objects the Go code starts from, and the mutate closures that
  \<open>createOrUpdate\<close> runs on the fetched or fresh child. Every Go panic on the
  way (a nil map, a nil selector pointer, an empty container list, a short UID)
  is an \<open>EPanic\<close> value.
\<close>

section \<open>Templates\<close>

text \<open>
  \<open>parseFile("svc.yaml", stsSvc)\<close> and \<open>parseFile("sts.yaml", sts)\<close> read and
  decode the two template files on every call; of the decoded objects the code
  reads the service's \<open>Spec\<close> and the statefulset's \<open>Name\<close> and \<open>Spec\<close>.
  A file that cannot be read or decoded is an \<open>EParse\<close> error.
\<close>

record templates =
  svc_yaml :: "error + svc_spec"
  sts_yaml :: "error + (string \<times> sts_spec)"

text \<open>
  \<open>parseFile\<close> with the file system and the YAML decoder as parameters:
  \<open>rd\<close> is \<open>ioutil.ReadFile\<close>, \<open>um\<close> is \<open>yaml.Unmarshal\<close> into the target
  type; a read error is returned before decoding is tried.
\<close>

definition parseFile :: "(string \<Rightarrow> error + string) \<Rightarrow> (string \<Rightarrow> error + 'a) \<Rightarrow> string \<Rightarrow> error + 'a" where
  "parseFile rd um fn = (case rd fn of Inl e \<Rightarrow> Inl e | Inr b \<Rightarrow> um b)"

text \<open>
  The two calls of \<open>reconcileService\<close> and \<open>reconcileStatefulSet\<close>: the
  templates a pass sees, given what the files hold during the pass.
\<close>

definition load_templates :: "(string \<Rightarrow> error + string) \<Rightarrow> (string \<Rightarrow> error + svc_spec)
    \<Rightarrow> (string \<Rightarrow> error + (string \<times> sts_spec)) \<Rightarrow> templates" where
  "load_templates rd um_svc um_sts =
     \<lparr>svc_yaml = parseFile rd um_svc ''svc.yaml'', sts_yaml = parseFile rd um_sts ''sts.yaml''\<rparr>"

section \<open>The routing service (reconcileService)\<close>

text \<open>\<open>svc.Spec.ClusterIP\<close> of the parent service.\<close>

definition svc_clusterIP :: "kobj \<Rightarrow> string" where
  "svc_clusterIP svc = (case spec svc of SvcSpec s \<Rightarrow> s_clusterIP s | StsSpec _ \<Rightarrow> [])"

definition empty_svc_spec :: svc_spec where
  "empty_svc_spec = \<lparr>s_selector = None, s_clusterIP = [], s_ports = []\<rparr>"

text \<open>\<open>svcOrig\<close>: name, namespace and an empty (non-nil) label map.\<close>

definition svc_orig :: "kobj \<Rightarrow> kobj" where
  "svc_orig svc = \<lparr>meta = new_meta (childName svc) (m_namespace (meta svc)) gm_empty,
                   spec = SvcSpec empty_svc_spec\<rparr>"

text \<open>
  The closure passed to \<open>createOrUpdate\<close>: label the child, put the selector
  label into the template's selector, and copy the template spec over the
  child's spec as a whole (\<open>DeepCopyInto\<close>).
\<close>

definition svc_mutate :: "kobj \<Rightarrow> svc_spec \<Rightarrow> kobj \<Rightarrow> error + kobj" where
  "svc_mutate svc tmpl ob =
     (case gm_put (m_labels (meta ob)) ''svc'' (m_name (meta svc)) of
        Inl e \<Rightarrow> Inl e
      | Inr l \<Rightarrow>
          (case gm_put (s_selector tmpl) ''svc'' (m_name (meta svc)) of
             Inl e \<Rightarrow> Inl e
           | Inr sel \<Rightarrow> Inr (ob\<lparr>meta := (meta ob)\<lparr>m_labels := l\<rparr>,
                              spec := SvcSpec (tmpl\<lparr>s_selector := sel\<rparr>)\<rparr>)))"

section \<open>The statefulset (reconcileStatefulSet)\<close>

definition empty_sts_spec :: sts_spec where
  "empty_sts_spec = \<lparr>t_replicas = None, t_selector = None, t_serviceName = [],
     t_template = \<lparr>pt_labels = None, pt_spec = \<lparr>p_hostname = [], p_containers = []\<rparr>\<rparr>\<rparr>"

definition sts_orig :: "kobj \<Rightarrow> kobj" where
  "sts_orig svc = \<lparr>meta = new_meta (childName svc) (m_namespace (meta svc)) gm_empty,
                   spec = StsSpec empty_sts_spec\<rparr>"

text \<open>
  The patch of the parsed template before \<open>createOrUpdate\<close>, in the code's
  order: \<open>DEST_IP\<close> in the first container (\<open>Containers[0]\<close> panics on an
  empty list), the pod hostname, the pod template label, the selector label
  (through the \<open>Selector\<close> pointer), and \<open>ServiceName\<close> set to the
  template's own \<open>Name\<close>.
\<close>

definition sts_desired :: "kobj \<Rightarrow> string \<times> sts_spec \<Rightarrow> error + sts_spec" where
  "sts_desired svc tp =
     (let (nm, ts) = tp; name = m_name (meta svc); tmpl = t_template ts; ps = pt_spec tmpl in
      case p_containers ps of
        [] \<Rightarrow> Inl (EPanic ''index out of range'')
      | c0 # cs \<Rightarrow>
          (let ps1 = ps\<lparr>p_containers := addOrUpdateEnv destIPKey (svc_clusterIP svc) c0 # cs\<rparr> in
           case hostName svc of
             Inl e \<Rightarrow> Inl e
           | Inr h \<Rightarrow>
               (let ps2 = ps1\<lparr>p_hostname := h\<rparr> in
                case gm_put (pt_labels tmpl) ''svc'' name of
                  Inl e \<Rightarrow> Inl e
                | Inr tlab \<Rightarrow>
                    (case t_selector ts of
                       None \<Rightarrow> Inl (EPanic ''invalid memory address or nil pointer dereference'')
                     | Some ls \<Rightarrow>
                         (case gm_put (matchLabels ls) ''svc'' name of
                            Inl e \<Rightarrow> Inl e
                          | Inr ml \<Rightarrow>
                              Inr (ts\<lparr>t_template := \<lparr>pt_labels = tlab, pt_spec = ps2\<rparr>,
                                      t_selector := Some (ls\<lparr>matchLabels := ml\<rparr>),
                                      t_serviceName := nm\<rparr>))))))"

definition sts_mutate :: "kobj \<Rightarrow> sts_spec \<Rightarrow> kobj \<Rightarrow> error + kobj" where
  "sts_mutate svc ds ob =
     (case gm_put (m_labels (meta ob)) ''svc'' (m_name (meta svc)) of
        Inl e \<Rightarrow> Inl e
      | Inr l \<Rightarrow> Inr (ob\<lparr>meta := (meta ob)\<lparr>m_labels := l\<rparr>, spec := StsSpec ds\<rparr>))"

section \<open>The desired children\<close>

text \<open>
  The specs the two children are given in a pass, as a pure function of the
  parent and the templates (the selector label is put into the parsed service
  template by the closure, so it is computed here the same way).
\<close>

definition desired_svc_spec :: "kobj \<Rightarrow> svc_spec \<Rightarrow> error + svc_spec" where
  "desired_svc_spec svc tmpl = (case gm_put (s_selector tmpl) ''svc'' (m_name (meta svc)) of
       Inl e \<Rightarrow> Inl e
     | Inr sel \<Rightarrow> Inr (tmpl\<lparr>s_selector := sel\<rparr>))"

text \<open>Both desired specs, or the first error building them (Desired-State Builder).\<close>

definition desired :: "templates \<Rightarrow> kobj \<Rightarrow> error + (svc_spec \<times> sts_spec)" where
  "desired tp svc =
     (case svc_yaml tp of
        Inl e \<Rightarrow> Inl e
      | Inr tmpl \<Rightarrow>
          (case desired_svc_spec svc tmpl of
             Inl e \<Rightarrow> Inl e
           | Inr s1 \<Rightarrow>
               (case sts_yaml tp of
                  Inl e \<Rightarrow> Inl e
                | Inr t \<Rightarrow>
                    (case sts_desired svc t of
                       Inl e \<Rightarrow> Inl e
                     | Inr s2 \<Rightarrow> Inr (s1, s2)))))"

section \<open>Lemmas\<close>

lemma sts_desired_Inr:
  assumes d: "sts_desired svc (nm, ts) = Inr ds"
  obtains c0 cs h tlab ls ml where
    "p_containers (pt_spec (t_template ts)) = c0 # cs" "hostName svc = Inr h"
    "gm_put (pt_labels (t_template ts)) ''svc'' (m_name (meta svc)) = Inr tlab"
    "t_selector ts = Some ls" "gm_put (matchLabels ls) ''svc'' (m_name (meta svc)) = Inr ml"
    "ds = ts\<lparr>t_template := \<lparr>pt_labels = tlab, pt_spec = (pt_spec (t_template ts))\<lparr>
              p_containers := addOrUpdateEnv destIPKey (svc_clusterIP svc) c0 # cs, p_hostname := h\<rparr>\<rparr>,
            t_selector := Some (ls\<lparr>matchLabels := ml\<rparr>), t_serviceName := nm\<rparr>"
  using d by (auto simp: sts_desired_def Let_def split: list.splits sum.splits option.splits)

section \<open>Claims\<close>

text \<open>
  C10. The patched statefulset template: when \<open>sts_desired\<close> succeeds, the
  first container is the template's first container with \<open>DEST_IP\<close> set to
  the parent's cluster IP and the others are untouched, the pod hostname is
  \<open>hostName\<close> of the parent, the pod template label and the selector both map
  \<open>svc\<close> to the parent's name (so the selector matches the pods), the replica
  count is the template's, and \<open>ServiceName\<close> is the template's own name
  \<open>nm\<close>, not the child's name.
\<close>

theorem sts_desired_spec:
  assumes d: "sts_desired svc (nm, ts) = Inr ds"
  shows "(\<exists>c0 cs. p_containers (pt_spec (t_template ts)) = c0 # cs \<and>
            p_containers (pt_spec (t_template ds)) = addOrUpdateEnv destIPKey (svc_clusterIP svc) c0 # cs)
     \<and> hostName svc = Inr (p_hostname (pt_spec (t_template ds)))
     \<and> gm_get (pt_labels (t_template ds)) ''svc'' = Some (m_name (meta svc))
     \<and> (\<exists>sel. t_selector ds = Some sel \<and> gm_get (matchLabels sel) ''svc'' = Some (m_name (meta svc)))
     \<and> t_replicas ds = t_replicas ts \<and> t_serviceName ds = nm"
proof -
  obtain c0 cs h tlab ls ml where c: "p_containers (pt_spec (t_template ts)) = c0 # cs"
    and h: "hostName svc = Inr h"
    and tl: "gm_put (pt_labels (t_template ts)) ''svc'' (m_name (meta svc)) = Inr tlab"
    and ls: "t_selector ts = Some ls" and ml: "gm_put (matchLabels ls) ''svc'' (m_name (meta svc)) = Inr ml"
    and ds: "ds = ts\<lparr>t_template := \<lparr>pt_labels = tlab, pt_spec = (pt_spec (t_template ts))\<lparr>
              p_containers := addOrUpdateEnv destIPKey (svc_clusterIP svc) c0 # cs, p_hostname := h\<rparr>\<rparr>,
            t_selector := Some (ls\<lparr>matchLabels := ml\<rparr>), t_serviceName := nm\<rparr>"
    using d by (rule sts_desired_Inr)
  have "gm_get tlab ''svc'' = Some (m_name (meta svc))" using gm_get_put [OF tl] by simp
  moreover have "gm_get ml ''svc'' = Some (m_name (meta svc))" using gm_get_put [OF ml] by simp
  ultimately show ?thesis using c h ds by simp
qed

text \<open>
  C11. The panics of the template patch: \<open>sts_desired\<close> fails exactly when
  the template has no container (\<open>Containers[0]\<close>), the parent's UID is
  shorter than 8 bytes (\<open>UID[:8]\<close>), the pod template's label map is nil,
  the selector pointer is nil, or the selector's label map is nil.
\<close>

theorem sts_desired_errors:
  "isl (sts_desired svc (nm, ts)) \<longleftrightarrow>
     p_containers (pt_spec (t_template ts)) = [] \<or> length (m_uid (meta svc)) < 8
     \<or> pt_labels (t_template ts) = None \<or> t_selector ts = None
     \<or> (\<exists>ls. t_selector ts = Some ls \<and> matchLabels ls = None)"
  by (auto simp: sts_desired_def Let_def hostName_def gm_put_def split: list.splits option.splits)

text \<open>
  C17. Labels are merged, not replaced: the mutate closures of both children
  set the label \<open>svc\<close> on the fetched child and keep every other label it
  had, however stale.
\<close>

theorem mutate_keeps_labels:
  assumes k: "k \<noteq> ''svc''" and s: "svc_mutate p tmpl ob = Inr m1" and t: "sts_mutate p ds ob = Inr m2"
  shows "gm_get (m_labels (meta m1)) k = gm_get (m_labels (meta ob)) k
     \<and> gm_get (m_labels (meta m2)) k = gm_get (m_labels (meta ob)) k"
  using k s t by (auto simp: svc_mutate_def sts_mutate_def gm_get_put split: sum.splits)

end
