(* ===== verification/Store.thy ===== *)
theory Store
  imports Objects
begin

text \<open>
  The API server as the reconciler sees it through \<open>client.Client\<close>, and the
  two wrappers that write children: \<open>controllerutil.CreateOrUpdate\<close> of
  controller-runtime and \<open>createOrUpdate\<close> of tailscale.go.

  The store holds the objects by key, the next resource version, and the log of
  the calls made so far. Any call may fail with a transient error: the call
  numbered \<open>n\<close> fails when \<open>fault n\<close> holds, which models a lost connection,
  a timeout or a conflict seen through a stale cache, at any point of a pass.
  An update is conditional on the resource version the client last read
  (optimistic concurrency); removing the last finalizer of an object whose
  deletion was requested deletes it, as the API server does.
\<close>

section \<open>State\<close>

datatype call = CGet objkey | CCreate objkey | CUpdate objkey

record store =
  objs :: "(objkey \<times> kobj) list"
  rv_next :: nat
  calls :: nat
  trace :: "(call \<times> bool) list"
  fault :: "nat \<Rightarrow> bool"
  mint :: "nat \<Rightarrow> string"

abbreviation healthy :: "store \<Rightarrow> bool" where
  "healthy st \<equiv> fault st = (\<lambda>_. False)"

definition lookup :: "store \<Rightarrow> objkey \<Rightarrow> kobj option" where
  "lookup st k = map_of (objs st) k"

text \<open>Log a call with its outcome (\<open>True\<close> when it returned no error).\<close>

definition tick :: "call \<Rightarrow> bool \<Rightarrow> store \<Rightarrow> store" where
  "tick c ok st = st\<lparr>calls := Suc (calls st), trace := trace st @ [(c, ok)]\<rparr>"

text \<open>
  Every object is stored under its own key, once, with a version already issued;
  an object whose deletion was requested still has a finalizer (else it is gone).
\<close>

definition obj_wf :: "nat \<Rightarrow> objkey \<Rightarrow> kobj \<Rightarrow> bool" where
  "obj_wf n k ob \<longleftrightarrow> key_of ob = k \<and> m_rv (meta ob) < n
     \<and> (m_deletion (meta ob) = None \<or> m_finalizers (meta ob) \<noteq> [])"

definition store_wf :: "store \<Rightarrow> bool" where
  "store_wf st \<longleftrightarrow> distinct (map fst (objs st)) \<and> list_all (\<lambda>(k, ob). obj_wf (rv_next st) k ob) (objs st)"

text \<open>The object as the server stores it after a create, and after an update of \<open>cur\<close>.\<close>

definition created :: "store \<Rightarrow> kobj \<Rightarrow> kobj" where
  "created st ob = ob\<lparr>meta := (meta ob)\<lparr>m_rv := rv_next st, m_uid := mint st (rv_next st), m_deletion := None\<rparr>\<rparr>"

definition updated :: "store \<Rightarrow> kobj \<Rightarrow> kobj \<Rightarrow> kobj" where
  "updated st cur ob = ob\<lparr>meta := (meta ob)\<lparr>m_rv := rv_next st, m_uid := m_uid (meta cur),
                                            m_deletion := m_deletion (meta cur)\<rparr>\<rparr>"

section \<open>client.Client\<close>

definition client_Get :: "objkey \<Rightarrow> store \<Rightarrow> (store, kobj) res" where
  "client_Get k st =
     (if fault st (calls st) then (Inl ETransient, tick (CGet k) False st)
      else (case lookup st k of
              None \<Rightarrow> (Inl ENotFound, tick (CGet k) False st)
            | Some ob \<Rightarrow> (Inr ob, tick (CGet k) True st)))"

text \<open>Create: the server assigns the resource version and a fresh UID.\<close>

definition client_Create :: "kobj \<Rightarrow> store \<Rightarrow> (store, kobj) res" where
  "client_Create ob st =
     (let k = key_of ob in
      if fault st (calls st) then (Inl ETransient, tick (CCreate k) False st)
      else (case lookup st k of
              Some _ \<Rightarrow> (Inl EAlreadyExists, tick (CCreate k) False st)
            | None \<Rightarrow>
                (Inr (created st ob),
                 (tick (CCreate k) True st)\<lparr>objs := AList.update k (created st ob) (objs st),
                                             rv_next := Suc (rv_next st)\<rparr>)))"

text \<open>
  An update that would store the object exactly as it is: the server writes
  nothing, issues no new resource version and sends no watch event.
\<close>

definition noop_update :: "kobj \<Rightarrow> kobj \<Rightarrow> bool" where
  "noop_update cur ob \<longleftrightarrow>
     ob\<lparr>meta := (meta ob)\<lparr>m_uid := m_uid (meta cur), m_deletion := m_deletion (meta cur)\<rparr>\<rparr> = cur"

text \<open>
  Update: refused unless the object exists and the caller's resource version is
  the stored one; UID and deletion timestamp are the server's and are kept.
\<close>

definition client_Update :: "kobj \<Rightarrow> store \<Rightarrow> (store, kobj) res" where
  "client_Update ob st =
     (let k = key_of ob in
      if fault st (calls st) then (Inl ETransient, tick (CUpdate k) False st)
      else (case lookup st k of
              None \<Rightarrow> (Inl ENotFound, tick (CUpdate k) False st)
            | Some cur \<Rightarrow>
                if m_rv (meta cur) \<noteq> m_rv (meta ob) then (Inl EConflict, tick (CUpdate k) False st)
                else if m_deletion (meta cur) \<noteq> None \<and> m_finalizers (meta ob) = []
                then (Inr (updated st cur ob),
                      (tick (CUpdate k) True st)\<lparr>objs := AList.delete k (objs st), rv_next := Suc (rv_next st)\<rparr>)
                else if noop_update cur ob then (Inr cur, tick (CUpdate k) True st)
                else (Inr (updated st cur ob),
                      (tick (CUpdate k) True st)\<lparr>objs := AList.update k (updated st cur ob) (objs st),
                                                  rv_next := Suc (rv_next st)\<rparr>)))"

section \<open>controllerutil.CreateOrUpdate\<close>

datatype opresult = OpNone | OpCreated | OpUpdated | OpUnchanged

text \<open>\<open>mutate\<close>: run the mutate function, then refuse a changed key.\<close>

definition mutate :: "(kobj \<Rightarrow> error + kobj) \<Rightarrow> objkey \<Rightarrow> kobj \<Rightarrow> error + kobj" where
  "mutate f key ob = (case f ob of
       Inl e \<Rightarrow> Inl e
     | Inr ob' \<Rightarrow> if key_of ob' \<noteq> key then Inl EMutateKey else Inr ob')"

text \<open>
  Get the object by the key of the in-memory one; if it is missing, mutate the
  in-memory object and create it; otherwise mutate what was read and update it
  unless the mutation changed nothing (semantic deep equality).
\<close>

definition CreateOrUpdate :: "kobj \<Rightarrow> (kobj \<Rightarrow> error + kobj) \<Rightarrow> store \<Rightarrow> (store, opresult) res" where
  "CreateOrUpdate obj f st =
     (let key = key_of obj in
      case client_Get key st of
        (Inl e, st1) \<Rightarrow>
          if e \<noteq> ENotFound then (Inl e, st1)
          else (case mutate f key obj of
                  Inl e' \<Rightarrow> (Inl e', st1)
                | Inr obj' \<Rightarrow> (case client_Create obj' st1 of
                                 (Inl e2, st2) \<Rightarrow> (Inl e2, st2)
                               | (Inr _, st2) \<Rightarrow> (Inr OpCreated, st2)))
      | (Inr existing, st1) \<Rightarrow>
          (case mutate f key existing of
             Inl e \<Rightarrow> (Inl e, st1)
           | Inr obj' \<Rightarrow>
               if DeepEqual existing obj' then (Inr OpUnchanged, st1)
               else (case client_Update obj' st1 of
                       (Inl e2, st2) \<Rightarrow> (Inl e2, st2)
                     | (Inr _, st2) \<Rightarrow> (Inr OpUpdated, st2))))"

text \<open>
  What a successful create-or-update guarantees about the stored object: the
  key, the spec (semantically), the labels and the owner references of the
  object the mutation produced. Resource version and UID are the server's.
\<close>

definition content_eq :: "kobj \<Rightarrow> kobj \<Rightarrow> bool" where
  "content_eq a b \<longleftrightarrow> key_of a = key_of b \<and> kspec_eq (spec a) (spec b)
     \<and> gm_eq (m_labels (meta a)) (m_labels (meta b)) \<and> m_owners (meta a) = m_owners (meta b)"

text \<open>The object \<open>CreateOrUpdate\<close> mutates: the stored one if there is one, else the in-memory one.\<close>

definition base_of :: "store \<Rightarrow> kobj \<Rightarrow> kobj" where
  "base_of st obj = (case lookup st (key_of obj) of None \<Rightarrow> obj | Some ex \<Rightarrow> ex)"

section \<open>createOrUpdate (tailscale.go)\<close>

text \<open>The owner reference is set on the object before the caller's mutation runs.\<close>

definition owned_mutation :: "kobj \<Rightarrow> (kobj \<Rightarrow> error + kobj) \<Rightarrow> kobj \<Rightarrow> error + kobj" where
  "owned_mutation owner fn ob = (case SetOwnerReference owner ob of
       Inl e \<Rightarrow> Inl e
     | Inr ob' \<Rightarrow> fn ob')"

definition createOrUpdate :: "kobj \<Rightarrow> kobj \<Rightarrow> (kobj \<Rightarrow> error + kobj) \<Rightarrow> store \<Rightarrow> (store, unit) res" where
  "createOrUpdate owner obj fn st =
     (case CreateOrUpdate obj (owned_mutation owner fn) st of
        (Inl e, st') \<Rightarrow> (Inl e, st')
      | (Inr _, st') \<Rightarrow> (Inr (), st'))"

section \<open>Lemmas: the client calls in closed form\<close>

lemma tick_simps [simp]:
  "objs (tick c ok st) = objs st" "rv_next (tick c ok st) = rv_next st" "fault (tick c ok st) = fault st"
  "mint (tick c ok st) = mint st" "calls (tick c ok st) = Suc (calls st)"
  "trace (tick c ok st) = trace st @ [(c, ok)]"
  by (simp_all add: tick_def)

lemma lookup_tick [simp]: "lookup (tick c ok st) k = lookup st k"
  by (simp add: lookup_def)

lemma meta_created [simp]:
  "meta (created st ob) = (meta ob)\<lparr>m_rv := rv_next st, m_uid := mint st (rv_next st), m_deletion := None\<rparr>"
  by (simp add: created_def)

lemma spec_created [simp]: "spec (created st ob) = spec ob"
  by (simp add: created_def)

lemma meta_updated [simp]:
  "meta (updated st cur ob) = (meta ob)\<lparr>m_rv := rv_next st, m_uid := m_uid (meta cur),
     m_deletion := m_deletion (meta cur)\<rparr>"
  by (simp add: updated_def)

lemma spec_updated [simp]: "spec (updated st cur ob) = spec ob"
  by (simp add: updated_def)

lemma client_Get_fault [store_simps]:
  "fault st (calls st) \<Longrightarrow> client_Get k st = (Inl ETransient, tick (CGet k) False st)"
  by (simp add: client_Get_def)

lemma client_Get_missing [store_simps]:
  "\<not> fault st (calls st) \<Longrightarrow> lookup st k = None \<Longrightarrow> client_Get k st = (Inl ENotFound, tick (CGet k) False st)"
  by (simp add: client_Get_def)

lemma client_Get_found [store_simps]:
  "\<not> fault st (calls st) \<Longrightarrow> lookup st k = Some ob \<Longrightarrow> client_Get k st = (Inr ob, tick (CGet k) True st)"
  by (simp add: client_Get_def)

lemma client_Create_fault [store_simps]:
  "fault st (calls st) \<Longrightarrow> client_Create ob st = (Inl ETransient, tick (CCreate (key_of ob)) False st)"
  by (simp add: client_Create_def Let_def)

lemma client_Create_exists [store_simps]:
  "\<not> fault st (calls st) \<Longrightarrow> lookup st (key_of ob) = Some cur \<Longrightarrow>
   client_Create ob st = (Inl EAlreadyExists, tick (CCreate (key_of ob)) False st)"
  by (simp add: client_Create_def Let_def)

lemma client_Create_new [store_simps]:
  "\<not> fault st (calls st) \<Longrightarrow> lookup st (key_of ob) = None \<Longrightarrow>
   client_Create ob st = (Inr (created st ob),
     (tick (CCreate (key_of ob)) True st)\<lparr>objs := AList.update (key_of ob) (created st ob) (objs st),
                                      rv_next := Suc (rv_next st)\<rparr>)"
  by (simp add: client_Create_def Let_def)

lemma client_Update_fault [store_simps]:
  "fault st (calls st) \<Longrightarrow> client_Update ob st = (Inl ETransient, tick (CUpdate (key_of ob)) False st)"
  by (simp add: client_Update_def Let_def)

lemma client_Update_missing [store_simps]:
  "\<not> fault st (calls st) \<Longrightarrow> lookup st (key_of ob) = None \<Longrightarrow>
   client_Update ob st = (Inl ENotFound, tick (CUpdate (key_of ob)) False st)"
  by (simp add: client_Update_def Let_def)

lemma client_Update_conflict [store_simps]:
  "\<not> fault st (calls st) \<Longrightarrow> lookup st (key_of ob) = Some cur \<Longrightarrow> m_rv (meta cur) \<noteq> m_rv (meta ob) \<Longrightarrow>
   client_Update ob st = (Inl EConflict, tick (CUpdate (key_of ob)) False st)"
  by (simp add: client_Update_def Let_def)

lemma client_Update_delete [store_simps]:
  "\<not> fault st (calls st) \<Longrightarrow> lookup st (key_of ob) = Some cur \<Longrightarrow> m_rv (meta cur) = m_rv (meta ob) \<Longrightarrow>
   m_deletion (meta cur) \<noteq> None \<Longrightarrow> m_finalizers (meta ob) = [] \<Longrightarrow>
   client_Update ob st = (Inr (updated st cur ob),
     (tick (CUpdate (key_of ob)) True st)\<lparr>objs := AList.delete (key_of ob) (objs st), rv_next := Suc (rv_next st)\<rparr>)"
  by (simp add: client_Update_def Let_def)

lemma client_Update_noop [store_simps]:
  "\<not> fault st (calls st) \<Longrightarrow> lookup st (key_of ob) = Some cur \<Longrightarrow> m_rv (meta cur) = m_rv (meta ob) \<Longrightarrow>
   m_deletion (meta cur) = None \<or> m_finalizers (meta ob) \<noteq> [] \<Longrightarrow> noop_update cur ob \<Longrightarrow>
   client_Update ob st = (Inr cur, tick (CUpdate (key_of ob)) True st)"
  by (auto simp: client_Update_def Let_def)

lemma client_Update_ok [store_simps]:
  "\<not> fault st (calls st) \<Longrightarrow> lookup st (key_of ob) = Some cur \<Longrightarrow> m_rv (meta cur) = m_rv (meta ob) \<Longrightarrow>
   m_deletion (meta cur) = None \<or> m_finalizers (meta ob) \<noteq> [] \<Longrightarrow> \<not> noop_update cur ob \<Longrightarrow>
   client_Update ob st = (Inr (updated st cur ob),
     (tick (CUpdate (key_of ob)) True st)\<lparr>objs := AList.update (key_of ob) (updated st cur ob) (objs st),
        rv_next := Suc (rv_next st)\<rparr>)"
  by (auto simp: client_Update_def Let_def)

section \<open>Lemmas: well-formedness of the store\<close>

lemma store_wf_tick [simp]: "store_wf (tick c ok st) = store_wf st"
  by (simp add: store_wf_def)

lemma obj_wf_mono: "obj_wf n k ob \<Longrightarrow> n \<le> n' \<Longrightarrow> obj_wf n' k ob"
  by (auto simp: obj_wf_def)

lemma store_wf_put:
  assumes "store_wf st" and "obj_wf n k ob" and "rv_next st \<le> n"
  shows "store_wf (st'\<lparr>objs := AList.update k ob (objs st), rv_next := n\<rparr>)"
proof -
  have "list_all (\<lambda>(k, ob). obj_wf n k ob) (objs st)"
    using assms(1,3) by (auto simp: store_wf_def list_all_iff intro: obj_wf_mono)
  with assms show ?thesis
    by (auto simp: store_wf_def distinct_update intro!: list_all_AList_update)
qed

lemma store_wf_del:
  assumes "store_wf st" and "rv_next st \<le> n"
  shows "store_wf (st'\<lparr>objs := AList.delete k (objs st), rv_next := n\<rparr>)"
proof -
  have "list_all (\<lambda>(k, ob). obj_wf n k ob) (objs st)"
    using assms by (auto simp: store_wf_def list_all_iff intro: obj_wf_mono)
  with assms show ?thesis
    by (auto simp: store_wf_def intro!: list_all_AList_delete distinct_AList_delete)
qed

lemma key_of_created [simp]: "key_of (created st ob) = key_of ob"
  by (simp add: created_def key_of_def)

lemma key_of_updated [simp]: "key_of (updated st cur ob) = key_of ob"
  by (simp add: updated_def key_of_def)

lemma rv_created [simp]: "m_rv (meta (created st ob)) = rv_next st"
  by (simp add: created_def)

lemma rv_updated [simp]: "m_rv (meta (updated st cur ob)) = rv_next st"
  by (simp add: updated_def)

lemma store_wf_lookup: "store_wf st \<Longrightarrow> lookup st k = Some ob \<Longrightarrow> obj_wf (rv_next st) k ob"
  by (auto simp: store_wf_def lookup_def list_all_iff dest: map_of_SomeD)

lemma obj_wf_created [simp]: "obj_wf (Suc (rv_next st)) (key_of ob) (created st ob)"
  by (simp add: obj_wf_def created_def key_of_def)

lemma obj_wf_updated:
  "m_deletion (meta cur) = None \<or> m_finalizers (meta ob) \<noteq> [] \<Longrightarrow>
   obj_wf (Suc (rv_next st)) (key_of ob) (updated st cur ob)"
  by (auto simp: obj_wf_def updated_def key_of_def)

lemma store_wf_Get: "client_Get k st = (r, st') \<Longrightarrow> store_wf st \<Longrightarrow> store_wf st'"
  by (cases "fault st (calls st)"; cases "lookup st k") (auto simp: store_simps)

lemma store_wf_Create:
  assumes r: "client_Create ob st = (r, st')" and wf: "store_wf st"
  shows "store_wf st'"
proof (cases "fault st (calls st)")
  case True
  with r wf show ?thesis by (auto simp: store_simps)
next
  case False
  show ?thesis
  proof (cases "lookup st (key_of ob)")
    case None
    with False r have "st' = (tick (CCreate (key_of ob)) True st)\<lparr>objs := AList.update (key_of ob) (created st ob) (objs st),
        rv_next := Suc (rv_next st)\<rparr>"
      by (simp add: store_simps)
    with wf show ?thesis by (simp add: store_wf_put)
  next
    case (Some cur)
    with False r wf show ?thesis by (auto simp: store_simps)
  qed
qed

lemma store_wf_Update:
  assumes r: "client_Update ob st = (r, st')" and wf: "store_wf st"
  shows "store_wf st'"
proof (cases "fault st (calls st)")
  case True
  with r wf show ?thesis by (auto simp: store_simps)
next
  case nf: False
  show ?thesis
  proof (cases "lookup st (key_of ob)")
    case None
    with nf r wf show ?thesis by (auto simp: store_simps)
  next
    case (Some cur)
    consider (conflict) "m_rv (meta cur) \<noteq> m_rv (meta ob)"
      | (delete) "m_rv (meta cur) = m_rv (meta ob)" "m_deletion (meta cur) \<noteq> None" "m_finalizers (meta ob) = []"
      | (ok) "m_rv (meta cur) = m_rv (meta ob)" "m_deletion (meta cur) = None \<or> m_finalizers (meta ob) \<noteq> []"
      by (cases "m_rv (meta cur) = m_rv (meta ob)"; cases "m_deletion (meta cur) = None";
          cases "m_finalizers (meta ob) = []") simp_all
    then show ?thesis
    proof cases
      case conflict
      with nf Some r wf show ?thesis by (auto simp: store_simps)
    next
      case delete
      with nf Some r have "st' = (tick (CUpdate (key_of ob)) True st)\<lparr>objs := AList.delete (key_of ob) (objs st),
          rv_next := Suc (rv_next st)\<rparr>"
        by (simp add: store_simps)
      with wf show ?thesis by (simp add: store_wf_del)
    next
      case ok
      show ?thesis
      proof (cases "noop_update cur ob")
        case True
        with ok nf Some r wf show ?thesis by (auto simp: store_simps)
      next
        case False
        with ok nf Some r have "st' = (tick (CUpdate (key_of ob)) True st)\<lparr>objs := AList.update (key_of ob) (updated st cur ob) (objs st),
            rv_next := Suc (rv_next st)\<rparr>"
          by (simp add: store_simps)
        with wf ok(2) show ?thesis by (simp add: store_wf_put obj_wf_updated)
      qed
    qed
  qed
qed
lemma store_wf_CreateOrUpdate:
  assumes r: "CreateOrUpdate obj f st = (r, st')" and wf: "store_wf st"
  shows "store_wf st'"
proof -
  obtain r1 st1 where g: "client_Get (key_of obj) st = (r1, st1)"
    by (cases "client_Get (key_of obj) st")
  from g wf have wf1: "store_wf st1" by (rule store_wf_Get)
  have "st' = st1 \<or> (\<exists>ob r'. client_Create ob st1 = (r', st'))
          \<or> (\<exists>ob r'. client_Update ob st1 = (r', st'))"
  proof (cases r1)
    case (Inl e)
    with r g show ?thesis
      by (cases "mutate f (key_of obj) obj"; cases "e = ENotFound")
        (auto simp: CreateOrUpdate_def split: prod.splits sum.splits)
  next
    case (Inr ex)
    with r g show ?thesis
      by (cases "mutate f (key_of obj) ex")
        (auto simp: CreateOrUpdate_def split: prod.splits sum.splits if_split_asm)
  qed
  with wf1 show ?thesis
    by (auto intro: store_wf_Create store_wf_Update)
qed

lemma store_wf_createOrUpdate:
  assumes "createOrUpdate owner obj fn st = (r, st')" and "store_wf st"
  shows "store_wf st'"
proof -
  obtain r1 where "CreateOrUpdate obj (owned_mutation owner fn) st = (r1, st')"
    using assms(1) by (cases "CreateOrUpdate obj (owned_mutation owner fn) st")
      (auto simp: createOrUpdate_def split: sum.splits)
  then show ?thesis using assms(2) by (rule store_wf_CreateOrUpdate)
qed

section \<open>Lemmas: CreateOrUpdate\<close>

lemma CreateOrUpdate_fault [store_simps]:
  "fault st (calls st) \<Longrightarrow> CreateOrUpdate obj f st = (Inl ETransient, tick (CGet (key_of obj)) False st)"
  by (simp add: CreateOrUpdate_def store_simps)

lemma CreateOrUpdate_absent [store_simps]:
  "\<not> fault st (calls st) \<Longrightarrow> lookup st (key_of obj) = None \<Longrightarrow>
   CreateOrUpdate obj f st =
     (case mutate f (key_of obj) obj of
        Inl e \<Rightarrow> (Inl e, tick (CGet (key_of obj)) False st)
      | Inr obj' \<Rightarrow> (case client_Create obj' (tick (CGet (key_of obj)) False st) of
                       (Inl e2, s) \<Rightarrow> (Inl e2, s)
                     | (Inr _, s) \<Rightarrow> (Inr OpCreated, s)))"
  by (simp add: CreateOrUpdate_def store_simps Let_def)

lemma CreateOrUpdate_present [store_simps]:
  "\<not> fault st (calls st) \<Longrightarrow> lookup st (key_of obj) = Some ex \<Longrightarrow>
   CreateOrUpdate obj f st =
     (case mutate f (key_of obj) ex of
        Inl e \<Rightarrow> (Inl e, tick (CGet (key_of obj)) True st)
      | Inr obj' \<Rightarrow>
          if DeepEqual ex obj' then (Inr OpUnchanged, tick (CGet (key_of obj)) True st)
          else (case client_Update obj' (tick (CGet (key_of obj)) True st) of
                  (Inl e2, s) \<Rightarrow> (Inl e2, s)
                | (Inr _, s) \<Rightarrow> (Inr OpUpdated, s)))"
  by (simp add: CreateOrUpdate_def store_simps Let_def)

lemma content_eq_refl [simp]: "content_eq a a"
  by (simp add: content_eq_def)

lemma content_eq_created [simp]: "content_eq (created st m) m"
  by (simp add: content_eq_def created_def key_of_def)

lemma content_eq_updated [simp]: "content_eq (updated st cur m) m"
  by (simp add: content_eq_def updated_def key_of_def)

lemma noop_update_parts:
  assumes "noop_update cur ob"
  shows "spec cur = spec ob" "m_name (meta cur) = m_name (meta ob)"
    "m_namespace (meta cur) = m_namespace (meta ob)" "m_rv (meta cur) = m_rv (meta ob)"
    "m_labels (meta cur) = m_labels (meta ob)" "m_annotations (meta cur) = m_annotations (meta ob)"
    "m_finalizers (meta cur) = m_finalizers (meta ob)" "m_owners (meta cur) = m_owners (meta ob)"
proof -
  let ?x = "ob\<lparr>meta := (meta ob)\<lparr>m_uid := m_uid (meta cur), m_deletion := m_deletion (meta cur)\<rparr>\<rparr>"
  have e: "?x = cur" using assms by (simp add: noop_update_def)
  show "spec cur = spec ob" using arg_cong [OF e, of spec] by simp
  show "m_name (meta cur) = m_name (meta ob)" using arg_cong [OF e, of "\<lambda>x. m_name (meta x)"] by simp
  show "m_namespace (meta cur) = m_namespace (meta ob)"
    using arg_cong [OF e, of "\<lambda>x. m_namespace (meta x)"] by simp
  show "m_rv (meta cur) = m_rv (meta ob)" using arg_cong [OF e, of "\<lambda>x. m_rv (meta x)"] by simp
  show "m_labels (meta cur) = m_labels (meta ob)" using arg_cong [OF e, of "\<lambda>x. m_labels (meta x)"] by simp
  show "m_annotations (meta cur) = m_annotations (meta ob)"
    using arg_cong [OF e, of "\<lambda>x. m_annotations (meta x)"] by simp
  show "m_finalizers (meta cur) = m_finalizers (meta ob)"
    using arg_cong [OF e, of "\<lambda>x. m_finalizers (meta x)"] by simp
  show "m_owners (meta cur) = m_owners (meta ob)" using arg_cong [OF e, of "\<lambda>x. m_owners (meta x)"] by simp
qed

lemma noop_update_content_eq: assumes "noop_update cur ob" shows "content_eq cur ob"
  using noop_update_parts [OF assms] by (simp add: content_eq_def key_of_def)

lemma DeepEqual_content_eq:
  assumes d: "DeepEqual a b" shows "content_eq a b"
proof -
  from d have "key_of a = key_of b" by (rule DeepEqual_key)
  with d show ?thesis by (simp add: content_eq_def DeepEqual_def meta_eq_def)
qed

lemma lookup_set_objs [simp]: "lookup (st\<lparr>objs := xs, rv_next := n\<rparr>) k = map_of xs k"
  by (simp add: lookup_def)

lemma lookup_update_same [simp]: "lookup (st'\<lparr>objs := AList.update k v (objs st), rv_next := n\<rparr>) k = Some v"
  by (simp add: update_conv')

lemma lookup_update_other:
  "k' \<noteq> k \<Longrightarrow> lookup (st'\<lparr>objs := AList.update k v (objs st), rv_next := n\<rparr>) k' = lookup st k'"
  by (simp add: lookup_def update_conv')

text \<open>
  A healthy create-or-update whose mutation keeps the key, the resource version
  and the finalizers succeeds, stores the mutated content under the key and
  touches no other key.
\<close>

lemma createOrUpdate_ok:
  assumes h: "healthy st" and wf: "store_wf st"
    and m: "owned_mutation owner fn (base_of st obj) = Inr m"
    and key: "key_of m = key_of obj"
    and rv: "m_rv (meta m) = m_rv (meta (base_of st obj))"
    and fin: "m_finalizers (meta m) = m_finalizers (meta (base_of st obj))"
  shows "\<exists>st'. createOrUpdate owner obj fn st = (Inr (), st') \<and> store_wf st' \<and> healthy st'
     \<and> (\<exists>ob. lookup st' (key_of obj) = Some ob \<and> content_eq ob m)
     \<and> (\<forall>k. k \<noteq> key_of obj \<longrightarrow> lookup st' k = lookup st k)"
proof (cases "lookup st (key_of obj)")
  case None
  let ?s1 = "tick (CGet (key_of obj)) False st"
  have mu: "mutate (owned_mutation owner fn) (key_of obj) obj = Inr m"
    using m key None by (simp add: mutate_def base_of_def)
  have la: "lookup ?s1 (key_of m) = None" using None key by simp
  let ?st' = "(tick (CCreate (key_of m)) True ?s1)\<lparr>objs := AList.update (key_of m) (created ?s1 m) (objs ?s1),
                 rv_next := Suc (rv_next ?s1)\<rparr>"
  have c: "createOrUpdate owner obj fn st = (Inr (), ?st')"
    using h None mu la by (simp add: createOrUpdate_def store_simps)
  have "obj_wf (Suc (rv_next st)) (key_of m) (created ?s1 m)"
    using obj_wf_created [of ?s1 m] by simp
  with wf have "store_wf ?st'" by (simp add: store_wf_put)
  moreover have "\<forall>k. k \<noteq> key_of obj \<longrightarrow> lookup ?st' k = lookup st k"
    using key by (simp add: update_conv' lookup_def)
  moreover have "lookup ?st' (key_of obj) = Some (created ?s1 m)" using key by simp
  ultimately show ?thesis using c h by auto
next
  case (Some ex)
  let ?s1 = "tick (CGet (key_of obj)) True st"
  have mu: "mutate (owned_mutation owner fn) (key_of obj) ex = Inr m"
    using m key Some by (simp add: mutate_def base_of_def)
  show ?thesis
  proof (cases "DeepEqual ex m")
    case True
    have c: "createOrUpdate owner obj fn st = (Inr (), ?s1)"
      using h Some mu True by (simp add: createOrUpdate_def store_simps)
    have "content_eq ex m" using True by (rule DeepEqual_content_eq)
    with c h wf Some show ?thesis by auto
  next
    case False
    have la: "lookup ?s1 (key_of m) = Some ex" using Some key by simp
    have exwf: "obj_wf (rv_next st) (key_of obj) ex" using wf Some by (rule store_wf_lookup)
    have rv': "m_rv (meta ex) = m_rv (meta m)" using rv Some by (simp add: base_of_def)
    have del: "m_deletion (meta ex) = None \<or> m_finalizers (meta m) \<noteq> []"
      using exwf fin Some by (auto simp: obj_wf_def base_of_def)
    show ?thesis
    proof (cases "noop_update ex m")
    case True
    let ?st' = "tick (CUpdate (key_of m)) True ?s1"
    have c: "createOrUpdate owner obj fn st = (Inr (), ?st')"
      using h Some mu False la rv' del True by (simp add: createOrUpdate_def store_simps)
    have "content_eq ex m" using True by (rule noop_update_content_eq)
    with c h wf Some show ?thesis by auto
    next
    case nn: False
    let ?st' = "(tick (CUpdate (key_of m)) True ?s1)\<lparr>objs := AList.update (key_of m) (updated ?s1 ex m) (objs ?s1),
                   rv_next := Suc (rv_next ?s1)\<rparr>"
    have c: "createOrUpdate owner obj fn st = (Inr (), ?st')"
      using h Some mu False la rv' del nn by (simp add: createOrUpdate_def store_simps)
    have "obj_wf (Suc (rv_next st)) (key_of m) (updated ?s1 ex m)"
      using obj_wf_updated [OF del, of ?s1] by simp
    with wf have "store_wf ?st'" by (simp add: store_wf_put)
    moreover have "\<forall>k. k \<noteq> key_of obj \<longrightarrow> lookup ?st' k = lookup st k"
      using key by (simp add: update_conv' lookup_def)
    moreover have "lookup ?st' (key_of obj) = Some (updated ?s1 ex m)" using key by simp
    ultimately show ?thesis using c h by auto
    qed
  qed
qed

end
