(* ===== verification/Controller.thy ===== *)
theory Controller
  imports Builder Store
begin

text \<open>
  The reconciler of controller.go and tailscale.go as store-threading functions:
  \<open>reconcileService\<close>, \<open>reconcileStatefulSet\<close>, \<open>deployTailscale\<close>,
  \<open>handleDelete\<close> and \<open>Reconcile\<close>. A request names the parent service by
  namespace and name; every client call goes through the store of
  \<^theory_text>\<open>Store\<close>, so faults, conflicts and the order of writes are explicit.
\<close>

section \<open>Operations\<close>

definition reconcileService :: "templates \<Rightarrow> kobj \<Rightarrow> store \<Rightarrow> (store, unit) res" where
  "reconcileService tp svc st =
     (case svc_yaml tp of
        Inl e \<Rightarrow> (Inl e, st)
      | Inr tmpl \<Rightarrow> createOrUpdate svc (svc_orig svc) (svc_mutate svc tmpl) st)"

definition reconcileStatefulSet :: "templates \<Rightarrow> kobj \<Rightarrow> store \<Rightarrow> (store, unit) res" where
  "reconcileStatefulSet tp svc st =
     (case sts_yaml tp of
        Inl e \<Rightarrow> (Inl e, st)
      | Inr t \<Rightarrow>
          (case sts_desired svc t of
             Inl e \<Rightarrow> (Inl e, st)
           | Inr ds \<Rightarrow> createOrUpdate svc (sts_orig svc) (sts_mutate svc ds) st))"

definition deployTailscale :: "templates \<Rightarrow> kobj \<Rightarrow> store \<Rightarrow> (store, unit) res" where
  "deployTailscale tp svc st = rbind (reconcileService tp svc st) (\<lambda>_. reconcileStatefulSet tp svc)"

text \<open>
  Teardown: nothing to do without the finalizer; with it, nothing either unless
  the device-ID annotation is present (the early \<open>return\<close> of the code);
  otherwise remove the finalizer and write the parent.
\<close>

definition handleDelete :: "kobj \<Rightarrow> store \<Rightarrow> (store, unit) res" where
  "handleDelete svc st =
     (if \<not> ContainsFinalizer svc finalizer then (Inr (), st)
      else (case gm_get (m_annotations (meta svc)) deviceIDAnnotation of
              None \<Rightarrow> (Inr (), st)
            | Some dID \<Rightarrow> rbind (client_Update (RemoveFinalizer svc finalizer) st) (\<lambda>_ s. (Inr (), s))))"

text \<open>The condition of \<open>Reconcile\<close> that sends a service to \<open>handleDelete\<close>.\<close>

definition disabled :: "kobj \<Rightarrow> bool" where
  "disabled svc \<longleftrightarrow>
     (case gm_get (m_annotations (meta svc)) enableAnnotation of
        None \<Rightarrow> True
      | Some ant \<Rightarrow> ToLower ant \<noteq> ''true'')
     \<or> m_deletion (meta svc) \<noteq> None"

definition Reconcile :: "templates \<Rightarrow> string \<times> string \<Rightarrow> store \<Rightarrow> (store, unit) res" where
  "Reconcile tp req st =
     rbind (client_Get (KService, req) st) (\<lambda>svc st1.
       if disabled svc then handleDelete svc st1
       else rbind (client_Update (AddFinalizer svc finalizer) st1) (\<lambda>svc' st2. deployTailscale tp svc' st2))"

section \<open>What a pass establishes\<close>

definition svc_child_key :: "kobj \<Rightarrow> objkey" where
  "svc_child_key p = (KService, m_namespace (meta p), childName p)"

definition sts_child_key :: "kobj \<Rightarrow> objkey" where
  "sts_child_key p = (KStatefulSet, m_namespace (meta p), childName p)"

text \<open>
  A stored child that carries the desired spec, the selector label and the
  owner reference (setting the reference again would change nothing).
\<close>

definition child_ok :: "kobj \<Rightarrow> kspec \<Rightarrow> kobj option \<Rightarrow> bool" where
  "child_ok p ds c = (case c of
       None \<Rightarrow> False
     | Some ch \<Rightarrow> kspec_eq (spec ch) ds \<and> gm_get (m_labels (meta ch)) ''svc'' = Some (m_name (meta p))
                 \<and> upsertOwnerRef (owner_ref_of p) (m_owners (meta ch)) = m_owners (meta ch))"

definition provisioned :: "templates \<Rightarrow> kobj \<Rightarrow> store \<Rightarrow> bool" where
  "provisioned tp p st = (case desired tp p of
       Inl _ \<Rightarrow> False
     | Inr (s1, s2) \<Rightarrow> child_ok p (SvcSpec s1) (lookup st (svc_child_key p))
                       \<and> child_ok p (StsSpec s2) (lookup st (sts_child_key p)))"

text \<open>Existing children must have a (non-nil) label map: the closures write into it.\<close>

definition children_labelled :: "store \<Rightarrow> kobj \<Rightarrow> bool" where
  "children_labelled st p = list_all (\<lambda>k. case lookup st k of None \<Rightarrow> True | Some c \<Rightarrow> m_labels (meta c) \<noteq> None)
     [svc_child_key p, sts_child_key p]"

section \<open>Lemmas: one pass on a healthy store\<close>

lemma key_of_svc_orig [simp]: "key_of (svc_orig p) = svc_child_key p"
  by (simp add: svc_orig_def key_of_def new_meta_def svc_child_key_def)

lemma key_of_sts_orig [simp]: "key_of (sts_orig p) = sts_child_key p"
  by (simp add: sts_orig_def key_of_def new_meta_def sts_child_key_def)

lemma child_keys_distinct [simp]:
  "svc_child_key p \<noteq> sts_child_key q" "sts_child_key q \<noteq> svc_child_key p"
  by (simp_all add: svc_child_key_def sts_child_key_def)

lemma parent_not_child_key [simp]:
  "(KService, m_namespace (meta p), m_name (meta p)) \<noteq> svc_child_key p"
  "(KService, m_namespace (meta p), m_name (meta p)) \<noteq> sts_child_key p"
  "svc_child_key p \<noteq> (KService, m_namespace (meta p), m_name (meta p))"
  "sts_child_key p \<noteq> (KService, m_namespace (meta p), m_name (meta p))"
  by (simp_all add: svc_child_key_def sts_child_key_def childName_def)

lemma svc_child_mutation:
  assumes k: "key_of b = svc_child_key p" and l: "m_labels (meta b) = Some ls"
    and d: "desired_svc_spec p tmpl = Inr s1"
  shows "\<exists>m. owned_mutation p (svc_mutate p tmpl) b = Inr m \<and> key_of m = key_of b
     \<and> m_rv (meta m) = m_rv (meta b) \<and> m_finalizers (meta m) = m_finalizers (meta b)
     \<and> spec m = SvcSpec s1 \<and> child_ok p (SvcSpec s1) (Some m)"
proof -
  have ns: "m_namespace (meta p) = m_namespace (meta b)"
    using k by (simp add: key_of_def svc_child_key_def)
  have kb: "kind_of (spec b) = KService" using k by (simp add: key_of_def svc_child_key_def)
  obtain sel where sel: "gm_put (s_selector tmpl) ''svc'' (m_name (meta p)) = Inr sel"
    and s1: "s1 = tmpl\<lparr>s_selector := sel\<rparr>"
    using d by (auto simp: desired_svc_spec_def split: sum.splits)
  from sel have gsel: "\<exists>xs. s_selector tmpl = Some xs" by (auto simp: gm_put_Inr_iff)
  let ?b1 = "b\<lparr>meta := (meta b)\<lparr>m_owners := upsertOwnerRef (owner_ref_of p) (m_owners (meta b))\<rparr>\<rparr>"
  let ?m = "?b1\<lparr>meta := (meta ?b1)\<lparr>m_labels := Some (AList.update ''svc'' (m_name (meta p)) ls)\<rparr>,
                spec := SvcSpec s1\<rparr>"
  have "owned_mutation p (svc_mutate p tmpl) b = Inr ?m"
    using ns l sel s1 by (simp add: owned_mutation_def SetOwnerReference_same_ns svc_mutate_def)
  moreover have "key_of ?m = key_of b" using kb by (simp add: key_of_def)
  moreover have "child_ok p (SvcSpec s1) (Some ?m)"
    by (simp add: child_ok_def upsertOwnerRef_idem)
  ultimately show ?thesis by auto
qed


lemma sts_child_mutation:
  assumes k: "key_of b = sts_child_key p" and l: "m_labels (meta b) = Some ls"
  shows "\<exists>m. owned_mutation p (sts_mutate p ds) b = Inr m \<and> key_of m = key_of b
     \<and> m_rv (meta m) = m_rv (meta b) \<and> m_finalizers (meta m) = m_finalizers (meta b)
     \<and> spec m = StsSpec ds \<and> child_ok p (StsSpec ds) (Some m)"
proof -
  have ns: "m_namespace (meta p) = m_namespace (meta b)"
    using k by (simp add: key_of_def sts_child_key_def)
  have kb: "kind_of (spec b) = KStatefulSet" using k by (simp add: key_of_def sts_child_key_def)
  let ?b1 = "b\<lparr>meta := (meta b)\<lparr>m_owners := upsertOwnerRef (owner_ref_of p) (m_owners (meta b))\<rparr>\<rparr>"
  let ?m = "?b1\<lparr>meta := (meta ?b1)\<lparr>m_labels := Some (AList.update ''svc'' (m_name (meta p)) ls)\<rparr>,
                spec := StsSpec ds\<rparr>"
  have "owned_mutation p (sts_mutate p ds) b = Inr ?m"
    using ns l by (simp add: owned_mutation_def SetOwnerReference_same_ns sts_mutate_def)
  moreover have "key_of ?m = key_of b" using kb by (simp add: key_of_def)
  moreover have "child_ok p (StsSpec ds) (Some ?m)"
    by (simp add: child_ok_def upsertOwnerRef_idem)
  ultimately show ?thesis by auto
qed

lemma child_ok_content_eq:
  "content_eq ob m \<Longrightarrow> spec m = ds \<Longrightarrow> child_ok p ds (Some m) \<Longrightarrow> child_ok p ds (Some ob)"
  by (auto simp: child_ok_def content_eq_def gm_eq_iff)

lemma base_of_child:
  assumes wf: "store_wf st" and k: "key_of obj = k" and l: "m_labels (meta obj) \<noteq> None"
    and c: "case lookup st k of None \<Rightarrow> True | Some c \<Rightarrow> m_labels (meta c) \<noteq> None"
  shows "key_of (base_of st obj) = k \<and> (\<exists>ls. m_labels (meta (base_of st obj)) = Some ls)"
proof (cases "lookup st k")
  case None
  with k l show ?thesis by (auto simp: base_of_def)
next
  case (Some ex)
  from wf Some have "obj_wf (rv_next st) k ex" by (rule store_wf_lookup)
  with Some c k show ?thesis by (auto simp: base_of_def obj_wf_def)
qed

lemma reconcileService_ok:
  assumes h: "healthy st" and wf: "store_wf st" and y: "svc_yaml tp = Inr tmpl"
    and d: "desired_svc_spec p tmpl = Inr s1"
    and c: "case lookup st (svc_child_key p) of None \<Rightarrow> True | Some c \<Rightarrow> m_labels (meta c) \<noteq> None"
  shows "\<exists>st'. reconcileService tp p st = (Inr (), st') \<and> store_wf st' \<and> healthy st'
     \<and> child_ok p (SvcSpec s1) (lookup st' (svc_child_key p))
     \<and> (\<forall>k. k \<noteq> svc_child_key p \<longrightarrow> lookup st' k = lookup st k)"
proof -
  have "key_of (base_of st (svc_orig p)) = svc_child_key p \<and> (\<exists>ls. m_labels (meta (base_of st (svc_orig p))) = Some ls)"
    by (rule base_of_child [OF wf _ _ c]) (simp_all add: svc_orig_def new_meta_def key_of_def svc_child_key_def)
  then obtain m where m: "owned_mutation p (svc_mutate p tmpl) (base_of st (svc_orig p)) = Inr m"
    and mk: "key_of m = svc_child_key p" and mrv: "m_rv (meta m) = m_rv (meta (base_of st (svc_orig p)))"
    and mf: "m_finalizers (meta m) = m_finalizers (meta (base_of st (svc_orig p)))"
    and ms: "spec m = SvcSpec s1" and mok: "child_ok p (SvcSpec s1) (Some m)"
    using svc_child_mutation [OF _ _ d] by metis
  obtain st' where r: "createOrUpdate p (svc_orig p) (svc_mutate p tmpl) st = (Inr (), st')"
    and w: "store_wf st'" and h': "healthy st'"
    and o: "\<exists>ob. lookup st' (svc_child_key p) = Some ob \<and> content_eq ob m"
    and fr: "\<forall>k. k \<noteq> svc_child_key p \<longrightarrow> lookup st' k = lookup st k"
    using createOrUpdate_ok [OF h wf m] mk mrv mf by auto
  from o ms mok have "child_ok p (SvcSpec s1) (lookup st' (svc_child_key p))"
    by (auto intro: child_ok_content_eq)
  with r w h' fr y show ?thesis by (auto simp: reconcileService_def)
qed

lemma reconcileStatefulSet_ok:
  assumes h: "healthy st" and wf: "store_wf st" and y: "sts_yaml tp = Inr t"
    and d: "sts_desired p t = Inr s2"
    and c: "case lookup st (sts_child_key p) of None \<Rightarrow> True | Some c \<Rightarrow> m_labels (meta c) \<noteq> None"
  shows "\<exists>st'. reconcileStatefulSet tp p st = (Inr (), st') \<and> store_wf st' \<and> healthy st'
     \<and> child_ok p (StsSpec s2) (lookup st' (sts_child_key p))
     \<and> (\<forall>k. k \<noteq> sts_child_key p \<longrightarrow> lookup st' k = lookup st k)"
proof -
  have "key_of (base_of st (sts_orig p)) = sts_child_key p \<and> (\<exists>ls. m_labels (meta (base_of st (sts_orig p))) = Some ls)"
    by (rule base_of_child [OF wf _ _ c]) (simp_all add: sts_orig_def new_meta_def key_of_def sts_child_key_def)
  then obtain m where m: "owned_mutation p (sts_mutate p s2) (base_of st (sts_orig p)) = Inr m"
    and mk: "key_of m = sts_child_key p" and mrv: "m_rv (meta m) = m_rv (meta (base_of st (sts_orig p)))"
    and mf: "m_finalizers (meta m) = m_finalizers (meta (base_of st (sts_orig p)))"
    and ms: "spec m = StsSpec s2" and mok: "child_ok p (StsSpec s2) (Some m)"
    using sts_child_mutation by metis
  obtain st' where r: "createOrUpdate p (sts_orig p) (sts_mutate p s2) st = (Inr (), st')"
    and w: "store_wf st'" and h': "healthy st'"
    and o: "\<exists>ob. lookup st' (sts_child_key p) = Some ob \<and> content_eq ob m"
    and fr: "\<forall>k. k \<noteq> sts_child_key p \<longrightarrow> lookup st' k = lookup st k"
    using createOrUpdate_ok [OF h wf m] mk mrv mf by auto
  from o ms mok have "child_ok p (StsSpec s2) (lookup st' (sts_child_key p))"
    by (auto intro: child_ok_content_eq)
  with r w h' fr y d show ?thesis by (auto simp: reconcileStatefulSet_def)
qed


lemma desired_cong:
  assumes "m_name (meta a) = m_name (meta b)" and "m_uid (meta a) = m_uid (meta b)" and "spec a = spec b"
  shows "desired tp a = desired tp b"
proof -
  have "desired_svc_spec a = desired_svc_spec b"
    using assms by (simp add: desired_svc_spec_def fun_eq_iff)
  moreover have "sts_desired a = sts_desired b"
  proof
    fix t
    have "svc_clusterIP a = svc_clusterIP b" using assms by (simp add: svc_clusterIP_def)
    moreover have "hostName a = hostName b" using assms by (simp add: hostName_def)
    ultimately show "sts_desired a t = sts_desired b t" using assms(1)
      by (simp add: sts_desired_def Let_def cong: list.case_cong sum.case_cong option.case_cong prod.case_cong)
  qed
  ultimately show ?thesis
    by (simp add: desired_def cong: sum.case_cong)
qed

lemma provisioned_cong:
  assumes "m_name (meta a) = m_name (meta b)" and "m_uid (meta a) = m_uid (meta b)" and "spec a = spec b"
    and "m_namespace (meta a) = m_namespace (meta b)"
  shows "provisioned tp a st = provisioned tp b st"
proof -
  have "desired tp a = desired tp b" using assms(1-3) by (rule desired_cong)
  moreover have "owner_ref_of a = owner_ref_of b" using assms by (simp add: owner_ref_of_def)
  ultimately show ?thesis using assms
    by (simp add: provisioned_def child_ok_def svc_child_key_def
        sts_child_key_def childName_def cong: sum.case_cong prod.case_cong option.case_cong)
qed

lemma desired_Inr:
  assumes "desired tp p = Inr (s1, s2)"
  obtains tmpl t where "svc_yaml tp = Inr tmpl" "desired_svc_spec p tmpl = Inr s1"
    "sts_yaml tp = Inr t" "sts_desired p t = Inr s2"
  using assms by (auto simp: desired_def split: sum.splits)

lemma deployTailscale_ok:
  assumes h: "healthy st" and wf: "store_wf st" and d: "desired tp p = Inr (s1, s2)"
    and c: "children_labelled st p"
  shows "\<exists>st'. deployTailscale tp p st = (Inr (), st') \<and> store_wf st' \<and> healthy st'
     \<and> provisioned tp p st'
     \<and> (\<forall>k. k \<noteq> svc_child_key p \<and> k \<noteq> sts_child_key p \<longrightarrow> lookup st' k = lookup st k)"
proof -
  obtain tmpl t where y1: "svc_yaml tp = Inr tmpl" and d1: "desired_svc_spec p tmpl = Inr s1"
    and y2: "sts_yaml tp = Inr t" and d2: "sts_desired p t = Inr s2"
    using d by (rule desired_Inr)
  have c1: "case lookup st (svc_child_key p) of None \<Rightarrow> True | Some c \<Rightarrow> m_labels (meta c) \<noteq> None"
    and c2: "case lookup st (sts_child_key p) of None \<Rightarrow> True | Some c \<Rightarrow> m_labels (meta c) \<noteq> None"
    using c by (simp_all add: children_labelled_def)
  obtain st1 where r1: "reconcileService tp p st = (Inr (), st1)" and w1: "store_wf st1"
    and h1: "healthy st1" and ok1: "child_ok p (SvcSpec s1) (lookup st1 (svc_child_key p))"
    and f1: "\<forall>k. k \<noteq> svc_child_key p \<longrightarrow> lookup st1 k = lookup st k"
    using reconcileService_ok [OF h wf y1 d1 c1] by blast
  have c2': "case lookup st1 (sts_child_key p) of None \<Rightarrow> True | Some c \<Rightarrow> m_labels (meta c) \<noteq> None"
    using c2 f1 [rule_format, of "sts_child_key p"] by simp
  obtain st2 where r2: "reconcileStatefulSet tp p st1 = (Inr (), st2)" and w2: "store_wf st2"
    and h2: "healthy st2" and ok2: "child_ok p (StsSpec s2) (lookup st2 (sts_child_key p))"
    and f2: "\<forall>k. k \<noteq> sts_child_key p \<longrightarrow> lookup st2 k = lookup st1 k"
    using reconcileStatefulSet_ok [OF h1 w1 y2 d2 c2'] by blast
  have "provisioned tp p st2"
    using d ok1 ok2 f2 [rule_format, of "svc_child_key p"] by (simp add: provisioned_def)
  with r1 r2 w2 h2 f1 f2 show ?thesis by (auto simp: deployTailscale_def)
qed

lemma parent_key: "store_wf st \<Longrightarrow> lookup st (KService, req) = Some p \<Longrightarrow>
   req = (m_namespace (meta p), m_name (meta p)) \<and> key_of p = (KService, req)"
  by (drule (1) store_wf_lookup) (auto simp: obj_wf_def key_of_def)

lemma AddFinalizer_update_ok:
  assumes h: "healthy st" and wf: "store_wf st" and p: "lookup st k = Some p" and kp: "key_of p = k"
    and nd: "m_deletion (meta p) = None"
  shows "\<exists>p' st'. client_Update (AddFinalizer p finalizer) st = (Inr p', st')
     \<and> store_wf st' \<and> healthy st' \<and> lookup st' k = Some p' \<and> ContainsFinalizer p' finalizer
     \<and> m_name (meta p') = m_name (meta p) \<and> m_uid (meta p') = m_uid (meta p) \<and> spec p' = spec p
     \<and> m_namespace (meta p') = m_namespace (meta p)
     \<and> m_annotations (meta p') = m_annotations (meta p) \<and> m_deletion (meta p') = m_deletion (meta p)
     \<and> m_owners (meta p') = m_owners (meta p)
     \<and> (\<forall>k'. k' \<noteq> k \<longrightarrow> lookup st' k' = lookup st k')"
proof -
  let ?q = "AddFinalizer p finalizer"
  have kq: "key_of ?q = k" using kp by simp
  show ?thesis
  proof (cases "noop_update p ?q")
    case True
    have u: "client_Update ?q st = (Inr p, tick (CUpdate k) True st)"
      using h p kq nd True by (simp add: client_Update_noop)
    have "ContainsFinalizer p finalizer"
      using noop_update_parts(7) [OF True] by (auto simp: ContainsFinalizer_def AddFinalizer_def split: if_splits)
    with u h wf p show ?thesis by auto
  next
    case False
    let ?st' = "(tick (CUpdate k) True st)\<lparr>objs := AList.update k (updated st p ?q) (objs st),
                   rv_next := Suc (rv_next st)\<rparr>"
    have u: "client_Update ?q st = (Inr (updated st p ?q), ?st')"
      using h p kq nd False by (simp add: client_Update_ok)
    have "obj_wf (Suc (rv_next st)) (key_of ?q) (updated st p ?q)"
      using nd by (intro obj_wf_updated) simp
    then have "store_wf ?st'" using wf kq by (simp add: store_wf_put)
    moreover have "lookup ?st' k = Some (updated st p ?q)" by simp
    moreover have "\<forall>k'. k' \<noteq> k \<longrightarrow> lookup ?st' k' = lookup st k'" by (simp add: lookup_def)
    moreover have "ContainsFinalizer (updated st p ?q) finalizer" by (simp add: ContainsFinalizer_def)
    ultimately show ?thesis using u h by auto
  qed
qed

text \<open>
  One enabling pass, with what later passes need: the stored parent differs
  from the one read only in its finalizers and resource version, and no object
  but the parent and the two children changed.
\<close>

lemma Reconcile_enable_ok:
  assumes h: "healthy st" and wf: "store_wf st" and p: "lookup st (KService, req) = Some p"
    and en: "\<not> disabled p" and d: "desired tp p = Inr (s1, s2)" and c: "children_labelled st p"
  shows "\<exists>p' st'. Reconcile tp req st = (Inr (), st') \<and> store_wf st' \<and> healthy st' \<and> provisioned tp p st'
     \<and> lookup st' (KService, req) = Some p' \<and> ContainsFinalizer p' finalizer
     \<and> m_name (meta p') = m_name (meta p) \<and> m_uid (meta p') = m_uid (meta p) \<and> spec p' = spec p
     \<and> m_namespace (meta p') = m_namespace (meta p)
     \<and> m_annotations (meta p') = m_annotations (meta p) \<and> m_deletion (meta p') = m_deletion (meta p)
     \<and> m_owners (meta p') = m_owners (meta p)
     \<and> (\<forall>k. k \<noteq> (KService, req) \<and> k \<noteq> svc_child_key p \<and> k \<noteq> sts_child_key p \<longrightarrow> lookup st' k = lookup st k)"
proof -
  have req: "req = (m_namespace (meta p), m_name (meta p))" and kp: "key_of p = (KService, req)"
    using parent_key [OF wf p] by auto
  let ?s1 = "tick (CGet (KService, req)) True st"
  have g: "client_Get (KService, req) st = (Inr p, ?s1)" using h p by (simp add: store_simps)
  have nd: "m_deletion (meta p) = None" using en by (simp add: disabled_def)
  have h1: "healthy ?s1" and w1: "store_wf ?s1" and l1: "lookup ?s1 (KService, req) = Some p"
    using h wf p by simp_all
  obtain p' st2 where u: "client_Update (AddFinalizer p finalizer) ?s1 = (Inr p', st2)"
    and w2: "store_wf st2" and h2: "healthy st2" and l2: "lookup st2 (KService, req) = Some p'"
    and cf: "ContainsFinalizer p' finalizer"
    and same: "m_name (meta p') = m_name (meta p)" "m_uid (meta p') = m_uid (meta p)"
      "spec p' = spec p" "m_namespace (meta p') = m_namespace (meta p)"
    and an: "m_annotations (meta p') = m_annotations (meta p)" "m_deletion (meta p') = m_deletion (meta p)"
      "m_owners (meta p') = m_owners (meta p)"
    and f2: "\<forall>k'. k' \<noteq> (KService, req) \<longrightarrow> lookup st2 k' = lookup ?s1 k'"
    using AddFinalizer_update_ok [OF h1 w1 l1 kp nd] by blast
  have d': "desired tp p' = Inr (s1, s2)"
    using desired_cong [OF same(1-3)] d by simp
  have ck: "svc_child_key p' = svc_child_key p" "sts_child_key p' = sts_child_key p"
    using same by (simp_all add: svc_child_key_def sts_child_key_def childName_def)
  have "lookup st2 (svc_child_key p) = lookup st (svc_child_key p)"
    "lookup st2 (sts_child_key p) = lookup st (sts_child_key p)"
    using f2 [rule_format, of "svc_child_key p"] f2 [rule_format, of "sts_child_key p"] req by simp_all
  then have c2: "children_labelled st2 p'"
    using c ck by (simp add: children_labelled_def)
  obtain st' where r: "deployTailscale tp p' st2 = (Inr (), st')" and w: "store_wf st'" and h': "healthy st'"
    and pr: "provisioned tp p' st'"
    and fr: "\<forall>k. k \<noteq> svc_child_key p' \<and> k \<noteq> sts_child_key p' \<longrightarrow> lookup st' k = lookup st2 k"
    using deployTailscale_ok [OF h2 w2 d' c2] by blast
  have "lookup st' (KService, req) = Some p'"
    using fr [rule_format, of "(KService, req)"] ck l2 req by simp
  moreover note cf
  moreover have "provisioned tp p st'" using pr provisioned_cong [OF same] by simp
  moreover have "Reconcile tp req st = (Inr (), st')"
    using g en u r by (simp add: Reconcile_def)
  moreover have "\<forall>k. k \<noteq> (KService, req) \<and> k \<noteq> svc_child_key p \<and> k \<noteq> sts_child_key p \<longrightarrow> lookup st' k = lookup st k"
    using fr f2 ck by simp
  ultimately show ?thesis using w h' same an by blast
qed

text \<open>
  C1. Enable path: on a healthy, well-formed store, a pass for an enabled
  service whose templates build and whose existing children have label maps
  succeeds, leaves the store well-formed, persists the finalizer on the parent
  and leaves both children with the desired specs, the selector label and the
  owner reference.
\<close>

theorem Reconcile_provisions:
  assumes h: "healthy st" and wf: "store_wf st" and p: "lookup st (KService, req) = Some p"
    and en: "\<not> disabled p" and d: "desired tp p = Inr (s1, s2)" and c: "children_labelled st p"
  shows "\<exists>st'. Reconcile tp req st = (Inr (), st') \<and> store_wf st' \<and> provisioned tp p st'
     \<and> (\<exists>p'. lookup st' (KService, req) = Some p' \<and> ContainsFinalizer p' finalizer)"
  using Reconcile_enable_ok [OF h wf p en d c] by blast

end
