(* ===== verification/Frame.thy ===== *)
theory Frame
  imports Store
begin

text \<open>
  Footprints of the store operations. \<open>confined K st st'\<close> says that going from
  \<open>st\<close> to \<open>st'\<close> changed no object outside the keys \<open>K\<close>, kept the fault
  schedule, and only appended calls on keys of \<open>K\<close> to the log. Every client
  call is confined to its key, \<open>CreateOrUpdate\<close> and \<open>createOrUpdate\<close> to the
  key of their object; the relation is reflexive, transitive and monotone in
  \<open>K\<close>, so the footprint of a composed operation is the union of its parts'.
  The exact log entry of a single call is given as well, for claims about the
  order of calls.
\<close>

section \<open>Definitions\<close>

primrec call_key :: "call \<Rightarrow> objkey" where
  "call_key (CGet k) = k"
| "call_key (CCreate k) = k"
| "call_key (CUpdate k) = k"

definition confined :: "objkey set \<Rightarrow> store \<Rightarrow> store \<Rightarrow> bool" where
  "confined K st st' \<longleftrightarrow> (\<forall>k. k \<notin> K \<longrightarrow> lookup st' k = lookup st k) \<and> fault st' = fault st
     \<and> (\<exists>xs. trace st' = trace st @ xs \<and> list_all (\<lambda>c. call_key (fst c) \<in> K) xs)"

section \<open>The relation\<close>

lemma confined_refl [simp]: "confined K st st"
  by (simp add: confined_def)

lemma confined_trans [trans]:
  assumes a: "confined K s1 s2" and b: "confined K s2 s3" shows "confined K s1 s3"
proof -
  obtain xs where x: "trace s2 = trace s1 @ xs" "list_all (\<lambda>c. call_key (fst c) \<in> K) xs"
    using a by (auto simp: confined_def)
  obtain ys where y: "trace s3 = trace s2 @ ys" "list_all (\<lambda>c. call_key (fst c) \<in> K) ys"
    using b by (auto simp: confined_def)
  have "trace s3 = trace s1 @ (xs @ ys) \<and> list_all (\<lambda>c. call_key (fst c) \<in> K) (xs @ ys)"
    using x y by simp
  with a b show ?thesis unfolding confined_def by metis
qed

lemma confined_mono: "confined K st st' \<Longrightarrow> K \<subseteq> K' \<Longrightarrow> confined K' st st'"
  unfolding confined_def by (metis (mono_tags, lifting) list_all_iff subsetD)

lemma confined_tick [intro]: "call_key c \<in> K \<Longrightarrow> confined K st (tick c b st)"
  unfolding confined_def by (intro conjI exI [of _ "[(c, b)]"]) simp_all

lemma confined_put:
  "call_key c = k \<Longrightarrow> confined {k} st ((tick c b st)\<lparr>objs := AList.update k v (objs st), rv_next := n\<rparr>)"
  unfolding confined_def by (intro conjI exI [of _ "[(c, b)]"]) (simp_all add: lookup_def)

lemma confined_del:
  "call_key c = k \<Longrightarrow> confined {k} st ((tick c b st)\<lparr>objs := AList.delete k (objs st), rv_next := n\<rparr>)"
  unfolding confined_def by (intro conjI exI [of _ "[(c, b)]"]) (simp_all add: lookup_def)

lemma confined_lookup: "confined K st st' \<Longrightarrow> k \<notin> K \<Longrightarrow> lookup st' k = lookup st k"
  unfolding confined_def by blast

lemma confined_trace:
  "confined K st st' \<Longrightarrow> \<exists>xs. trace st' = trace st @ xs \<and> list_all (\<lambda>c. call_key (fst c) \<in> K) xs"
  unfolding confined_def by blast

lemma confined_fault: "confined K st st' \<Longrightarrow> fault st' = fault st"
  by (simp add: confined_def)

section \<open>Footprints of the client calls\<close>

lemma client_Get_trace:
  "client_Get k st = (r, st') \<Longrightarrow> st' = tick (CGet k) (\<not> isl r) st"
  by (auto simp: client_Get_def split: if_splits option.splits)

lemma client_Get_confined: "client_Get k st = (r, st') \<Longrightarrow> confined {k} st st'"
  by (drule client_Get_trace) (simp add: confined_tick)

lemma client_Create_confined:
  assumes r: "client_Create ob st = (r, st')" shows "confined {key_of ob} st st'"
proof (cases "fault st (calls st)")
  case True
  with r show ?thesis by (auto simp: store_simps)
next
  case nf: False
  show ?thesis
  proof (cases "lookup st (key_of ob)")
    case None
    with nf r show ?thesis by (auto simp: store_simps intro: confined_put)
  next
    case (Some cur)
    with nf r show ?thesis by (auto simp: store_simps)
  qed
qed

lemma client_Update_cases:
  assumes r: "client_Update ob st = (r, st')"
  obtains (fail) "st' = tick (CUpdate (key_of ob)) False st" "isl r"
  | (put) cur where "lookup st (key_of ob) = Some cur" "r = Inr (updated st cur ob)"
      "st' = (tick (CUpdate (key_of ob)) True st)\<lparr>objs := AList.update (key_of ob) (updated st cur ob) (objs st),
                rv_next := Suc (rv_next st)\<rparr>"
  | (noop) cur where "lookup st (key_of ob) = Some cur" "r = Inr cur" "st' = tick (CUpdate (key_of ob)) True st"
  | (del) cur where "lookup st (key_of ob) = Some cur" "r = Inr (updated st cur ob)"
      "m_deletion (meta cur) \<noteq> None" "m_finalizers (meta ob) = []"
      "st' = (tick (CUpdate (key_of ob)) True st)\<lparr>objs := AList.delete (key_of ob) (objs st),
                rv_next := Suc (rv_next st)\<rparr>"
  using r by (auto simp: client_Update_def Let_def split: if_splits option.splits)

lemma client_Update_confined:
  assumes r: "client_Update ob st = (r, st')" shows "confined {key_of ob} st st'"
  using r by (cases rule: client_Update_cases) (auto intro: confined_put confined_del)

lemma client_Update_trace:
  assumes r: "client_Update ob st = (r, st')"
  shows "trace st' = trace st @ [(CUpdate (key_of ob), \<not> isl r)]"
  using r by (cases rule: client_Update_cases) auto

section \<open>Footprints of the wrappers\<close>

lemma mutate_key: "mutate f k ob = Inr ob' \<Longrightarrow> key_of ob' = k"
  by (auto simp: mutate_def split: sum.splits if_splits)

lemma CreateOrUpdate_confined:
  assumes r: "CreateOrUpdate obj f st = (r, st')" shows "confined {key_of obj} st st'"
proof (cases "fault st (calls st)")
  case True
  with r show ?thesis by (auto simp: store_simps)
next
  case nf: False
  show ?thesis
  proof (cases "lookup st (key_of obj)")
    case None
    let ?s1 = "tick (CGet (key_of obj)) False st"
    have c1: "confined {key_of obj} st ?s1" by (simp add: confined_tick)
    show ?thesis
    proof (cases "mutate f (key_of obj) obj")
      case (Inl e)
      with nf None r c1 show ?thesis by (simp add: store_simps)
    next
      case (Inr obj')
      obtain r2 st2 where c: "client_Create obj' ?s1 = (r2, st2)" by (cases "client_Create obj' ?s1")
      have "st' = st2" using nf None r Inr c by (cases r2) (simp_all add: store_simps)
      moreover have "confined {key_of obj} ?s1 st2"
        using client_Create_confined [OF c] mutate_key [OF Inr] by simp
      ultimately show ?thesis using c1 by (blast intro: confined_trans)
    qed
  next
    case (Some ex)
    let ?s1 = "tick (CGet (key_of obj)) True st"
    have c1: "confined {key_of obj} st ?s1" by (simp add: confined_tick)
    show ?thesis
    proof (cases "mutate f (key_of obj) ex")
      case (Inl e)
      with nf Some r c1 show ?thesis by (simp add: store_simps)
    next
      case (Inr obj')
      obtain r2 st2 where c: "client_Update obj' ?s1 = (r2, st2)" by (cases "client_Update obj' ?s1")
      have "st' = ?s1 \<or> st' = st2"
        using nf Some r Inr c by (cases r2) (auto simp: store_simps split: if_splits)
      moreover have "confined {key_of obj} ?s1 st2"
        using client_Update_confined [OF c] mutate_key [OF Inr] by simp
      ultimately show ?thesis using c1 by (blast intro: confined_trans)
    qed
  qed
qed

lemma createOrUpdate_confined:
  assumes "createOrUpdate owner obj fn st = (r, st')" shows "confined {key_of obj} st st'"
proof -
  obtain r1 where "CreateOrUpdate obj (owned_mutation owner fn) st = (r1, st')"
    using assms by (cases "CreateOrUpdate obj (owned_mutation owner fn) st")
      (auto simp: createOrUpdate_def split: sum.splits)
  then show ?thesis by (rule CreateOrUpdate_confined)
qed

end
