(* ===== verification/Passes.thy ===== *)
theory Passes
  imports Controller Frame
begin

text \<open>
  Properties of whole reconcile passes under any fault schedule: the four
  ways a run of \<open>Reconcile\<close> can go (\<open>Reconcile_cases\<close>), the keys a pass may
  write (the parent and its two children, \<open>pass_keys\<close>), that the store stays
  well-formed, that the finalizer is persisted before any child is touched,
  the teardown branches of \<open>handleDelete\<close>, the answer to a missing parent,
  and the enable check.
\<close>

section \<open>Definitions\<close>

text \<open>The keys a pass for \<open>req\<close> may touch: the parent and the two children \<open><name>-tailscale\<close>.\<close>

definition pass_keys :: "string \<times> string \<Rightarrow> objkey set" where
  "pass_keys req = {(KService, req), (KService, fst req, snd req @ ''-tailscale''),
                    (KStatefulSet, fst req, snd req @ ''-tailscale'')}"

section \<open>Lemmas: the parts of a pass\<close>

lemma client_Get_Inr: "client_Get k st = (Inr ob, st') \<Longrightarrow> lookup st k = Some ob"
  by (auto simp: client_Get_def split: if_splits option.splits)

lemma client_Update_Inr_key:
  assumes wf: "store_wf st" and r: "client_Update ob st = (Inr ob', st')" shows "key_of ob' = key_of ob"
  using r by (cases rule: client_Update_cases) (auto dest: store_wf_lookup [OF wf] simp: obj_wf_def)

lemma child_keys_of_key:
  "key_of q = (KService, req) \<Longrightarrow>
     svc_child_key q = (KService, fst req, snd req @ ''-tailscale'') \<and>
     sts_child_key q = (KStatefulSet, fst req, snd req @ ''-tailscale'')"
  by (cases req) (simp add: key_of_def svc_child_key_def sts_child_key_def childName_def)

lemma reconcileService_confined:
  "reconcileService tp p st = (r, st') \<Longrightarrow> confined {svc_child_key p} st st'"
  by (auto simp: reconcileService_def split: sum.splits dest: createOrUpdate_confined)

lemma reconcileStatefulSet_confined:
  "reconcileStatefulSet tp p st = (r, st') \<Longrightarrow> confined {sts_child_key p} st st'"
  by (auto simp: reconcileStatefulSet_def split: sum.splits dest: createOrUpdate_confined)

lemma deployTailscale_confined:
  assumes r: "deployTailscale tp p st = (r, st')"
  shows "confined {svc_child_key p, sts_child_key p} st st'"
proof -
  obtain r1 s1 where a: "reconcileService tp p st = (r1, s1)" by (cases "reconcileService tp p st")
  have c1: "confined {svc_child_key p, sts_child_key p} st s1"
    using reconcileService_confined [OF a] by (rule confined_mono) simp
  show ?thesis
  proof (cases r1)
    case (Inl e)
    with r a c1 show ?thesis by (simp add: deployTailscale_def)
  next
    case (Inr u)
    with r a have "reconcileStatefulSet tp p s1 = (r, st')" by (simp add: deployTailscale_def)
    then have "confined {svc_child_key p, sts_child_key p} s1 st'"
      by (rule confined_mono [OF reconcileStatefulSet_confined]) simp
    with c1 show ?thesis by (rule confined_trans)
  qed
qed

lemma deployTailscale_wf:
  assumes r: "deployTailscale tp p st = (r, st')" and wf: "store_wf st" shows "store_wf st'"
proof -
  obtain r1 s1 where a: "reconcileService tp p st = (r1, s1)" by (cases "reconcileService tp p st")
  have w1: "store_wf s1" using a wf
    by (auto simp: reconcileService_def split: sum.splits intro: store_wf_createOrUpdate)
  show ?thesis
  proof (cases r1)
    case (Inl e)
    with r a w1 show ?thesis by (simp add: deployTailscale_def)
  next
    case (Inr u)
    with r a have "reconcileStatefulSet tp p s1 = (r, st')" by (simp add: deployTailscale_def)
    with w1 show ?thesis
      by (auto simp: reconcileStatefulSet_def split: sum.splits intro: store_wf_createOrUpdate)
  qed
qed

lemma handleDelete_run:
  assumes r: "handleDelete p st = (r, st')"
  shows "st' = st \<or> (\<exists>r'. client_Update (RemoveFinalizer p finalizer) st = (r', st'))"
proof -
  obtain r1 s1 where u: "client_Update (RemoveFinalizer p finalizer) st = (r1, s1)"
    by (cases "client_Update (RemoveFinalizer p finalizer) st")
  show ?thesis
  proof (cases r1)
    case (Inl e)
    with u r show ?thesis by (auto simp: handleDelete_def split: option.splits if_splits)
  next
    case (Inr q)
    with u r show ?thesis by (auto simp: handleDelete_def split: option.splits if_splits)
  qed
qed

lemma handleDelete_confined: "handleDelete p st = (r, st') \<Longrightarrow> confined {key_of p} st st'"
  by (drule handleDelete_run) (auto dest: client_Update_confined)

lemma handleDelete_wf: "handleDelete p st = (r, st') \<Longrightarrow> store_wf st \<Longrightarrow> store_wf st'"
  by (drule handleDelete_run) (auto intro: store_wf_Update)

text \<open>The four ways a pass can go, in the order of the code.\<close>

lemma Reconcile_cases [consumes 1, case_names get_fail teardown fin_fail deploy]:
  assumes r: "Reconcile tp req st = (r, st')"
  obtains (get_fail) e where "client_Get (KService, req) st = (Inl e, st')" "r = Inl e"
  | (teardown) p s1 where "client_Get (KService, req) st = (Inr p, s1)" "disabled p"
      "handleDelete p s1 = (r, st')"
  | (fin_fail) p s1 e where "client_Get (KService, req) st = (Inr p, s1)" "\<not> disabled p"
      "client_Update (AddFinalizer p finalizer) s1 = (Inl e, st')" "r = Inl e"
  | (deploy) p s1 p' s2 where "client_Get (KService, req) st = (Inr p, s1)" "\<not> disabled p"
      "client_Update (AddFinalizer p finalizer) s1 = (Inr p', s2)" "deployTailscale tp p' s2 = (r, st')"
proof -
  obtain r1 s1 where g: "client_Get (KService, req) st = (r1, s1)" by (cases "client_Get (KService, req) st")
  show ?thesis
  proof (cases r1)
    case (Inl e)
    with g r show ?thesis by (intro get_fail [of e]) (simp_all add: Reconcile_def)
  next
    case (Inr p)
    show ?thesis
    proof (cases "disabled p")
      case True
      with g r Inr show ?thesis by (intro teardown [of p s1]) (simp_all add: Reconcile_def)
    next
      case False
      obtain r2 s2 where u: "client_Update (AddFinalizer p finalizer) s1 = (r2, s2)"
        by (cases "client_Update (AddFinalizer p finalizer) s1")
      show ?thesis
      proof (cases r2)
        case (Inl e)
        with g r Inr False u show ?thesis by (intro fin_fail [of p s1 e]) (simp_all add: Reconcile_def)
      next
        case (Inr p')
        with g r \<open>r1 = Inr p\<close> False u show ?thesis
          by (intro deploy [of p s1 p' s2]) (simp_all add: Reconcile_def)
      qed
    qed
  qed
qed

lemma parent_of_get:
  assumes "store_wf st" and "client_Get (KService, req) st = (Inr p, s1)"
  shows "key_of p = (KService, req)"
  using parent_key [OF assms(1) client_Get_Inr [OF assms(2)]] by simp

lemma ContainsFinalizer_updated [simp]:
  "ContainsFinalizer (updated st cur ob) f = ContainsFinalizer ob f"
  by (simp add: ContainsFinalizer_def)

lemma RemoveFinalizer_not_noop:
  assumes "ContainsFinalizer p f" shows "\<not> noop_update p (RemoveFinalizer p f)"
proof
  assume "noop_update p (RemoveFinalizer p f)"
  have r: "m_finalizers (meta (RemoveFinalizer p f)) = filter (\<lambda>e. e \<noteq> f) (m_finalizers (meta p))"
    by (simp add: RemoveFinalizer_def)
  from noop_update_parts(7) [OF \<open>noop_update p (RemoveFinalizer p f)\<close>] r
  have "m_finalizers (meta p) = filter (\<lambda>e. e \<noteq> f) (m_finalizers (meta p))" by (rule trans)
  then have "filter (\<lambda>e. e \<noteq> f) (m_finalizers (meta p)) = m_finalizers (meta p)" by (rule sym)
  then have "\<forall>e\<in>set (m_finalizers (meta p)). e \<noteq> f" by (simp only: filter_id_conv)
  with assms show False by (auto simp: ContainsFinalizer_def)
qed

lemma Reconcile_disabled:
  assumes nf: "\<not> fault st (calls st)" and p: "lookup st (KService, req) = Some p" and dis: "disabled p"
  shows "Reconcile tp req st = handleDelete p (tick (CGet (KService, req)) True st)"
  using nf p dis by (simp add: Reconcile_def client_Get_found)

text \<open>Every pass, whatever fails, keeps the store well-formed.\<close>

lemma Reconcile_wf:
  assumes wf: "store_wf st" and r: "Reconcile tp req st = (r, st')"
  shows "store_wf st'"
using r proof (cases rule: Reconcile_cases)
  case (get_fail e)
  with wf show ?thesis by (blast intro: store_wf_Get)
next
  case (teardown p s1)
  with wf show ?thesis by (blast intro: store_wf_Get handleDelete_wf)
next
  case (fin_fail p s1 e)
  with wf show ?thesis by (blast intro: store_wf_Get store_wf_Update)
next
  case (deploy p s1 p' s2)
  with wf show ?thesis by (blast intro: store_wf_Get store_wf_Update deployTailscale_wf)
qed

section \<open>Claims: order of writes and footprint\<close>

text \<open>A successful update of an object that holds the finalizer leaves it stored with the finalizer.\<close>

lemma finalizer_stored:
  assumes u: "client_Update ob s = (Inr q, s')" and f: "ContainsFinalizer ob finalizer"
  shows "\<exists>c. lookup s' (key_of ob) = Some c \<and> ContainsFinalizer c finalizer"
  using u f noop_update_parts(7) [of _ ob]
  by (auto simp: client_Update_def Let_def ContainsFinalizer_def split: if_splits option.splits)

text \<open>
  C2. Finalizer first: in every pass, whatever fails, the first call is the Get
  of the parent; and unless every later call is on the parent itself, the call
  right after the Get is a successful Update of the parent that stores it with
  the finalizer, and no later call of the pass touches the parent: every child
  is read and written only while the stored parent holds the finalizer.
\<close>

theorem Reconcile_finalizer_first:
  assumes wf: "store_wf st" and r: "Reconcile tp req st = (r, st')"
  shows "\<exists>b rest. trace st' = trace st @ (CGet (KService, req), b) # rest \<and>
     (list_all (\<lambda>c. call_key (fst c) = (KService, req)) rest
      \<or> (\<exists>rest' p'. rest = (CUpdate (KService, req), True) # rest'
            \<and> list_all (\<lambda>c. call_key (fst c) \<noteq> (KService, req)) rest'
            \<and> lookup st' (KService, req) = Some p' \<and> ContainsFinalizer p' finalizer))"
using r proof (cases rule: Reconcile_cases)
  case (get_fail e)
  then show ?thesis by (auto dest!: client_Get_trace)
next
  case (teardown p s1)
  have s1: "s1 = tick (CGet (KService, req)) True st" using teardown(1) by (auto dest: client_Get_trace)
  have kp: "key_of p = (KService, req)" using wf teardown(1) by (rule parent_of_get)
  obtain xs where "trace st' = trace s1 @ xs" "list_all (\<lambda>c. call_key (fst c) \<in> {key_of p}) xs"
    using confined_trace [OF handleDelete_confined [OF teardown(3)]] by blast
  with s1 kp have "trace st' = trace st @ (CGet (KService, req), True) # xs"
    "list_all (\<lambda>c. call_key (fst c) = (KService, req)) xs" by simp_all
  then show ?thesis by blast
next
  case (fin_fail p s1 e)
  have s1: "s1 = tick (CGet (KService, req)) True st" using fin_fail(1) by (auto dest: client_Get_trace)
  have kp: "key_of p = (KService, req)" using wf fin_fail(1) by (rule parent_of_get)
  from client_Update_trace [OF fin_fail(3)] s1 kp fin_fail(4)
  have "trace st' = trace st @ [(CGet (KService, req), True), (CUpdate (KService, req), False)]" by simp
  then show ?thesis by (intro exI [of _ True] exI [of _ "[(CUpdate (KService, req), False)]"]) simp
next
  case (deploy p s1 p' s2)
  have s1: "s1 = tick (CGet (KService, req)) True st" using deploy(1) by (auto dest: client_Get_trace)
  have kp: "key_of p = (KService, req)" using wf deploy(1) by (rule parent_of_get)
  have t2: "trace s2 = trace s1 @ [(CUpdate (KService, req), True)]"
    using client_Update_trace [OF deploy(3)] kp by simp
  obtain c where c: "lookup s2 (KService, req) = Some c" and cf: "ContainsFinalizer c finalizer"
    using finalizer_stored [OF deploy(3)] kp by auto
  have w1: "store_wf s1" using store_wf_Get [OF deploy(1) wf] .
  have kp': "key_of p' = (KService, req)" using client_Update_Inr_key [OF w1 deploy(3)] kp by simp
  have out: "(KService, req) \<notin> {svc_child_key p', sts_child_key p'}"
    using child_keys_of_key [OF kp'] by (cases req) simp
  note cd = deployTailscale_confined [OF deploy(4)]
  obtain ys where ys: "trace st' = trace s2 @ ys"
    and ks: "list_all (\<lambda>c. call_key (fst c) \<in> {svc_child_key p', sts_child_key p'}) ys"
    using confined_trace [OF cd] by blast
  have "list_all (\<lambda>c. call_key (fst c) \<noteq> (KService, req)) ys"
    using ks out by (auto simp: list_all_iff)
  moreover have "lookup st' (KService, req) = Some c" using confined_lookup [OF cd out] c by simp
  moreover have "trace st' = trace st @ (CGet (KService, req), True) # (CUpdate (KService, req), True) # ys"
    using ys s1 t2 by simp
  ultimately show ?thesis using cf by blast
qed

text \<open>The footprint of a pass, for the proofs that compose passes.\<close>

lemma pass_confined:
  assumes wf: "store_wf st" and r: "Reconcile tp req st = (r, st')"
  shows "confined (pass_keys req) st st'"
proof -
  have pk: "(KService, req) \<in> pass_keys req" by (simp add: pass_keys_def)
  have get: "confined (pass_keys req) st s1" if "client_Get (KService, req) st = (r1, s1)" for r1 s1
    using confined_mono [OF client_Get_confined [OF that]] pk by simp
  show ?thesis
  using r proof (cases rule: Reconcile_cases)
    case (get_fail e)
    show ?thesis using get_fail(1) by (rule get)
  next
    case (teardown p s1)
    have kp: "key_of p = (KService, req)" using wf teardown(1) by (rule parent_of_get)
    have "confined (pass_keys req) s1 st'"
      using confined_mono [OF handleDelete_confined [OF teardown(3)]] kp pk by simp
    with get [OF teardown(1)] show ?thesis by (rule confined_trans)
  next
    case (fin_fail p s1 e)
    have kp: "key_of p = (KService, req)" using wf fin_fail(1) by (rule parent_of_get)
    have "confined (pass_keys req) s1 st'"
      using confined_mono [OF client_Update_confined [OF fin_fail(3)]] kp pk by simp
    with get [OF fin_fail(1)] show ?thesis by (rule confined_trans)
  next
    case (deploy p s1 p' s2)
    have kp: "key_of p = (KService, req)" using wf deploy(1) by (rule parent_of_get)
    have w1: "store_wf s1" using store_wf_Get [OF deploy(1) wf] .
    have kp': "key_of p' = (KService, req)" using client_Update_Inr_key [OF w1 deploy(3)] kp by simp
    have c2: "confined (pass_keys req) s1 s2"
      using confined_mono [OF client_Update_confined [OF deploy(3)]] kp pk by simp
    have "confined (pass_keys req) s2 st'"
      using confined_mono [OF deployTailscale_confined [OF deploy(4)]] child_keys_of_key [OF kp']
      by (simp add: pass_keys_def)
    with get [OF deploy(1)] c2 show ?thesis by (blast intro: confined_trans)
  qed
qed

text \<open>
  C6. Footprint: a pass over a well-formed store, whatever fails, changes no
  object other than the parent and the two children named after it, keeps the
  fault schedule and only logs calls on those three keys.
\<close>

theorem Reconcile_confined:
  assumes wf: "store_wf st" and r: "Reconcile tp req st = (r, st')"
  shows "confined (pass_keys req) st st'"
  using pass_confined [OF wf r] .

section \<open>Claims: teardown and a missing parent\<close>

text \<open>
  C3. Teardown: when a disabled or deleted service carries the finalizer and the
  device-ID annotation, a pass without faults succeeds and removes the
  finalizer: the parent is stored without it, or is gone exactly when its
  deletion was requested and no other finalizer remains; nothing else changes.
\<close>

theorem Reconcile_teardown:
  assumes h: "healthy st" and wf: "store_wf st" and p: "lookup st (KService, req) = Some p"
    and dis: "disabled p" and f: "ContainsFinalizer p finalizer"
    and d: "gm_get (m_annotations (meta p)) deviceIDAnnotation = Some dID"
  shows "\<exists>st'. Reconcile tp req st = (Inr (), st')
     \<and> (\<forall>q. lookup st' (KService, req) = Some q \<longrightarrow> \<not> ContainsFinalizer q finalizer)
     \<and> (lookup st' (KService, req) = None \<longleftrightarrow>
          m_deletion (meta p) \<noteq> None \<and> m_finalizers (meta (RemoveFinalizer p finalizer)) = [])
     \<and> (\<forall>k. k \<noteq> (KService, req) \<longrightarrow> lookup st' k = lookup st k)"
proof -
  let ?k = "(KService, req)" and ?q = "RemoveFinalizer p finalizer"
  let ?s1 = "tick (CGet ?k) True st"
  have kp: "key_of p = ?k" using parent_key [OF wf p] by simp
  have r: "Reconcile tp req st = rbind (client_Update ?q ?s1) (\<lambda>_ s. (Inr (), s))"
    using Reconcile_disabled [OF _ p dis] h f d by (simp add: handleDelete_def)
  have pre: "\<not> fault ?s1 (calls ?s1)" "lookup ?s1 (key_of ?q) = Some p" "m_rv (meta p) = m_rv (meta ?q)"
    using h p kp by simp_all
  show ?thesis
  proof (cases "m_deletion (meta p) \<noteq> None \<and> m_finalizers (meta ?q) = []")
    case True
    let ?st' = "(tick (CUpdate (key_of ?q)) True ?s1)\<lparr>objs := AList.delete (key_of ?q) (objs ?s1),
                  rv_next := Suc (rv_next ?s1)\<rparr>"
    have run: "Reconcile tp req st = (Inr (), ?st')"
      using r client_Update_delete [OF pre] True by simp
    have l: "lookup ?st' ?k = None" using kp by (simp add: lookup_def)
    have fr: "\<forall>k. k \<noteq> ?k \<longrightarrow> lookup ?st' k = lookup st k"
      using kp by (simp add: lookup_def)
    have nc: "\<forall>q. lookup ?st' ?k = Some q \<longrightarrow> \<not> ContainsFinalizer q finalizer"
      using l by simp
    have gone: "lookup ?st' ?k = None \<longleftrightarrow>
        m_deletion (meta p) \<noteq> None \<and> m_finalizers (meta ?q) = []"
      using l True by simp
    show ?thesis by (rule exI [of _ ?st']) (intro conjI run nc gone fr)
  next
    case False
    let ?st' = "(tick (CUpdate (key_of ?q)) True ?s1)\<lparr>objs := AList.update (key_of ?q) (updated ?s1 p ?q) (objs ?s1),
                  rv_next := Suc (rv_next ?s1)\<rparr>"
    have keep: "m_deletion (meta p) = None \<or> m_finalizers (meta ?q) \<noteq> []" using False by blast
    have run: "Reconcile tp req st = (Inr (), ?st')"
      using r client_Update_ok [OF pre keep RemoveFinalizer_not_noop [OF f]] by simp
    have l: "lookup ?st' ?k = Some (updated ?s1 p ?q)" using kp by simp
    have fr: "\<forall>k. k \<noteq> ?k \<longrightarrow> lookup ?st' k = lookup st k"
      using kp by (simp add: lookup_def)
    have nc: "\<forall>q. lookup ?st' ?k = Some q \<longrightarrow> \<not> ContainsFinalizer q finalizer"
      using l by simp
    have gone: "lookup ?st' ?k = None \<longleftrightarrow>
        m_deletion (meta p) \<noteq> None \<and> m_finalizers (meta ?q) = []"
      using l False by simp
    show ?thesis by (rule exI [of _ ?st']) (intro conjI run nc gone fr)
  qed
qed

text \<open>
  C4. The early return of \<open>handleDelete\<close>: when a disabled or deleted service
  carries the finalizer but no device-ID annotation, a pass reads the parent and
  returns success without any write, so the finalizer stays and a requested
  deletion never completes. (No code path writes the device-ID annotation.)
\<close>

theorem Reconcile_finalizer_kept:
  assumes nf: "\<not> fault st (calls st)" and p: "lookup st (KService, req) = Some p"
    and dis: "disabled p" and f: "ContainsFinalizer p finalizer"
    and d: "gm_get (m_annotations (meta p)) deviceIDAnnotation = None"
  shows "Reconcile tp req st = (Inr (), tick (CGet (KService, req)) True st)
     \<and> lookup (tick (CGet (KService, req)) True st) (KService, req) = Some p"
  using Reconcile_disabled [OF nf p dis] f d p by (simp add: handleDelete_def)

text \<open>
  C8. Disabled and never enabled: a pass for a disabled service without the
  finalizer reads the parent and returns success; it writes nothing and creates
  no child.
\<close>

theorem Reconcile_disabled_no_writes:
  assumes nf: "\<not> fault st (calls st)" and p: "lookup st (KService, req) = Some p"
    and dis: "disabled p" and f: "\<not> ContainsFinalizer p finalizer"
  shows "Reconcile tp req st = (Inr (), tick (CGet (KService, req)) True st)"
  using Reconcile_disabled [OF nf p dis] f by (simp add: handleDelete_def)

text \<open>
  C9. A missing parent: when the service is not in the store, the pass returns
  the \<open>NotFound\<close> error of the Get (the code returns it to the
  controller, which requeues the request) and writes nothing.
\<close>

theorem Reconcile_not_found:
  assumes nf: "\<not> fault st (calls st)" and p: "lookup st (KService, req) = None"
  shows "Reconcile tp req st = (Inl ENotFound, tick (CGet (KService, req)) False st)"
  using nf p by (simp add: Reconcile_def store_simps)

text \<open>
  C18. The enable check: a service goes down the provisioning path exactly when
  its deletion was not requested and its enable annotation is \<open>true\<close> in any
  mix of upper and lower case; an absent annotation or any other value
  disables it.
\<close>

theorem disabled_iff:
  "\<not> disabled svc \<longleftrightarrow> m_deletion (meta svc) = None \<and>
     (\<exists>a b c d. gm_get (m_annotations (meta svc)) enableAnnotation = Some [a, b, c, d]
        \<and> a \<in> {CHR ''t'', CHR ''T''} \<and> b \<in> {CHR ''r'', CHR ''R''}
        \<and> c \<in> {CHR ''u'', CHR ''U''} \<and> d \<in> {CHR ''e'', CHR ''E''})"
  by (auto simp: disabled_def ToLower_true_iff split: option.splits)

end
