(* ===== verification/Convergence.thy ===== *)
theory Convergence
  imports Passes
begin

text \<open>
  Convergence: a pass over a parent that already holds the finalizer and whose
  children already carry the desired state writes nothing. The parent update of
  \<open>Reconcile\<close> stores the object unchanged (the API server skips it), and
  \<open>CreateOrUpdate\<close> finds each child semantically equal to its mutation and
  skips the update (\<open>OperationResultNone\<close>). The lemmas show that re-running
  each mutate closure on a child in the desired state is a semantic no-op.
\<close>

section \<open>Lemmas: the mutations on a converged child\<close>

lemma relabel_DeepEqual:
  assumes l: "m_labels (meta ex) = Some ls" and v: "map_of ls k = Some v"
    and ow: "upsertOwnerRef r (m_owners (meta ex)) = m_owners (meta ex)" and s: "kspec_eq (spec ex) sp"
  shows "DeepEqual ex (ex\<lparr>meta := (meta ex)\<lparr>m_owners := upsertOwnerRef r (m_owners (meta ex)),
                                             m_labels := Some (AList.update k v ls)\<rparr>, spec := sp\<rparr>)"
proof -
  have "gm_get (Some ls) = gm_get (Some (AList.update k v ls))" using v by (simp add: fun_eq_iff)
  with l ow s show ?thesis by (simp add: DeepEqual_def meta_eq_def gm_eq_iff)
qed

lemma child_ok_parts:
  assumes "child_ok p ds (Some ex)"
  obtains ls where "m_labels (meta ex) = Some ls" "map_of ls ''svc'' = Some (m_name (meta p))"
    "kspec_eq (spec ex) ds" "upsertOwnerRef (owner_ref_of p) (m_owners (meta ex)) = m_owners (meta ex)"
  using assms by (cases "m_labels (meta ex)") (auto simp: child_ok_def)

lemma svc_child_unchanged:
  assumes k: "key_of ex = svc_child_key p" and ok: "child_ok p (SvcSpec ds) (Some ex)"
    and d: "desired_svc_spec p tmpl = Inr ds"
  shows "\<exists>m. owned_mutation p (svc_mutate p tmpl) ex = Inr m \<and> key_of m = key_of ex \<and> DeepEqual ex m"
proof -
  obtain ls where l: "m_labels (meta ex) = Some ls" and v: "map_of ls ''svc'' = Some (m_name (meta p))"
    and s: "kspec_eq (spec ex) (SvcSpec ds)"
    and ow: "upsertOwnerRef (owner_ref_of p) (m_owners (meta ex)) = m_owners (meta ex)"
    using ok by (rule child_ok_parts)
  have ns: "m_namespace (meta p) = m_namespace (meta ex)" and kx: "kind_of (spec ex) = KService"
    using k by (simp_all add: key_of_def svc_child_key_def)
  obtain sel where sel: "gm_put (s_selector tmpl) ''svc'' (m_name (meta p)) = Inr sel"
    and ds: "ds = tmpl\<lparr>s_selector := sel\<rparr>"
    using d by (auto simp: desired_svc_spec_def split: sum.splits)
  let ?m = "ex\<lparr>meta := (meta ex)\<lparr>m_owners := upsertOwnerRef (owner_ref_of p) (m_owners (meta ex)),
              m_labels := Some (AList.update ''svc'' (m_name (meta p)) ls)\<rparr>, spec := SvcSpec ds\<rparr>"
  have "owned_mutation p (svc_mutate p tmpl) ex = Inr ?m"
    using ns l sel ds by (simp add: owned_mutation_def SetOwnerReference_same_ns svc_mutate_def)
  moreover have "key_of ?m = key_of ex" using kx by (simp add: key_of_def)
  moreover have "DeepEqual ex ?m" using l v ow s by (rule relabel_DeepEqual)
  ultimately show ?thesis by blast
qed

lemma sts_child_unchanged:
  assumes k: "key_of ex = sts_child_key p" and ok: "child_ok p (StsSpec ds) (Some ex)"
  shows "\<exists>m. owned_mutation p (sts_mutate p ds) ex = Inr m \<and> key_of m = key_of ex \<and> DeepEqual ex m"
proof -
  obtain ls where l: "m_labels (meta ex) = Some ls" and v: "map_of ls ''svc'' = Some (m_name (meta p))"
    and s: "kspec_eq (spec ex) (StsSpec ds)"
    and ow: "upsertOwnerRef (owner_ref_of p) (m_owners (meta ex)) = m_owners (meta ex)"
    using ok by (rule child_ok_parts)
  have ns: "m_namespace (meta p) = m_namespace (meta ex)" and kx: "kind_of (spec ex) = KStatefulSet"
    using k by (simp_all add: key_of_def sts_child_key_def)
  let ?m = "ex\<lparr>meta := (meta ex)\<lparr>m_owners := upsertOwnerRef (owner_ref_of p) (m_owners (meta ex)),
              m_labels := Some (AList.update ''svc'' (m_name (meta p)) ls)\<rparr>, spec := StsSpec ds\<rparr>"
  have "owned_mutation p (sts_mutate p ds) ex = Inr ?m"
    using ns l by (simp add: owned_mutation_def SetOwnerReference_same_ns sts_mutate_def)
  moreover have "key_of ?m = key_of ex" using kx by (simp add: key_of_def)
  moreover have "DeepEqual ex ?m" using l v ow s by (rule relabel_DeepEqual)
  ultimately show ?thesis by blast
qed

section \<open>Lemmas: the calls on a converged child\<close>

lemma createOrUpdate_unchanged:
  assumes nf: "\<not> fault st (calls st)" and ex: "lookup st (key_of obj) = Some ex"
    and m: "owned_mutation owner fn ex = Inr m" and k: "key_of m = key_of obj" and eq: "DeepEqual ex m"
  shows "createOrUpdate owner obj fn st = (Inr (), tick (CGet (key_of obj)) True st)"
proof -
  have "mutate (owned_mutation owner fn) (key_of obj) ex = Inr m" using m k by (simp add: mutate_def)
  with nf ex eq show ?thesis by (simp add: createOrUpdate_def CreateOrUpdate_present)
qed

lemma stored_child:
  assumes wf: "store_wf st" and ok: "child_ok p ds (lookup st k)"
  obtains ex where "lookup st k = Some ex" "key_of ex = k" "child_ok p ds (Some ex)"
proof (cases "lookup st k")
  case None
  with ok show ?thesis by (simp add: child_ok_def)
next
  case (Some ex)
  with store_wf_lookup [OF wf Some] ok show ?thesis by (intro that) (simp_all add: obj_wf_def)
qed

lemma reconcileService_unchanged:
  assumes nf: "\<not> fault st (calls st)" and wf: "store_wf st" and y: "svc_yaml tp = Inr tmpl"
    and d: "desired_svc_spec p tmpl = Inr ds" and ok: "child_ok p (SvcSpec ds) (lookup st (svc_child_key p))"
  shows "reconcileService tp p st = (Inr (), tick (CGet (svc_child_key p)) True st)"
proof -
  obtain ex where ex: "lookup st (svc_child_key p) = Some ex" and k: "key_of ex = svc_child_key p"
    and ok': "child_ok p (SvcSpec ds) (Some ex)"
    using wf ok by (rule stored_child)
  obtain m where "owned_mutation p (svc_mutate p tmpl) ex = Inr m" "key_of m = key_of ex" "DeepEqual ex m"
    using svc_child_unchanged [OF k ok' d] by blast
  then have "createOrUpdate p (svc_orig p) (svc_mutate p tmpl) st = (Inr (), tick (CGet (svc_child_key p)) True st)"
    using createOrUpdate_unchanged [OF nf, of "svc_orig p"] ex k by simp
  with y show ?thesis by (simp add: reconcileService_def)
qed

lemma reconcileStatefulSet_unchanged:
  assumes nf: "\<not> fault st (calls st)" and wf: "store_wf st" and y: "sts_yaml tp = Inr t"
    and d: "sts_desired p t = Inr ds" and ok: "child_ok p (StsSpec ds) (lookup st (sts_child_key p))"
  shows "reconcileStatefulSet tp p st = (Inr (), tick (CGet (sts_child_key p)) True st)"
proof -
  obtain ex where ex: "lookup st (sts_child_key p) = Some ex" and k: "key_of ex = sts_child_key p"
    and ok': "child_ok p (StsSpec ds) (Some ex)"
    using wf ok by (rule stored_child)
  obtain m where "owned_mutation p (sts_mutate p ds) ex = Inr m" "key_of m = key_of ex" "DeepEqual ex m"
    using sts_child_unchanged [OF k ok'] by blast
  then have "createOrUpdate p (sts_orig p) (sts_mutate p ds) st = (Inr (), tick (CGet (sts_child_key p)) True st)"
    using createOrUpdate_unchanged [OF nf, of "sts_orig p"] ex k by simp
  with y d show ?thesis by (simp add: reconcileStatefulSet_def)
qed

lemma deployTailscale_unchanged:
  assumes h: "healthy st" and wf: "store_wf st" and pr: "provisioned tp p st"
  shows "deployTailscale tp p st =
     (Inr (), tick (CGet (sts_child_key p)) True (tick (CGet (svc_child_key p)) True st))"
proof -
  obtain ds1 ds2 where d: "desired tp p = Inr (ds1, ds2)"
    and ok1: "child_ok p (SvcSpec ds1) (lookup st (svc_child_key p))"
    and ok2: "child_ok p (StsSpec ds2) (lookup st (sts_child_key p))"
    using pr by (auto simp: provisioned_def split: sum.splits)
  obtain tmpl t where y1: "svc_yaml tp = Inr tmpl" and d1: "desired_svc_spec p tmpl = Inr ds1"
    and y2: "sts_yaml tp = Inr t" and d2: "sts_desired p t = Inr ds2"
    using d by (rule desired_Inr)
  let ?s1 = "tick (CGet (svc_child_key p)) True st"
  have r1: "reconcileService tp p st = (Inr (), ?s1)"
    using h wf y1 d1 ok1 by (simp add: reconcileService_unchanged)
  have "reconcileStatefulSet tp p ?s1 = (Inr (), tick (CGet (sts_child_key p)) True ?s1)"
    using h wf y2 d2 ok2 by (simp add: reconcileStatefulSet_unchanged)
  with r1 show ?thesis by (simp add: deployTailscale_def)
qed

lemma AddFinalizer_noop_update:
  assumes nf: "\<not> fault st (calls st)" and p: "lookup st (key_of p) = Some p" and f: "ContainsFinalizer p finalizer"
  shows "client_Update (AddFinalizer p finalizer) st = (Inr p, tick (CUpdate (key_of p)) True st)"
proof -
  have "m_finalizers (meta p) \<noteq> []" using f by (auto simp: ContainsFinalizer_def)
  moreover have "noop_update p p" by (simp add: noop_update_def)
  ultimately show ?thesis using nf p by (simp add: AddFinalizer_present [OF f] client_Update_noop)
qed

section \<open>Claim\<close>

text \<open>
  C5. Idempotence: a pass over a healthy store for an enabled service that holds
  the finalizer and whose children carry the desired state succeeds and writes
  nothing. Its calls are the Get of the parent, an Update of the parent that the
  server skips, and the Gets of the two children; the objects and resource
  versions of the store are unchanged.
\<close>

theorem Reconcile_idempotent:
  assumes h: "healthy st" and wf: "store_wf st" and p: "lookup st (KService, req) = Some p"
    and en: "\<not> disabled p" and f: "ContainsFinalizer p finalizer" and pr: "provisioned tp p st"
  shows "Reconcile tp req st = (Inr (), tick (CGet (sts_child_key p)) True (tick (CGet (svc_child_key p)) True
           (tick (CUpdate (KService, req)) True (tick (CGet (KService, req)) True st))))"
proof -
  let ?k = "(KService, req)"
  let ?s1 = "tick (CGet ?k) True st" and ?s2 = "tick (CUpdate ?k) True (tick (CGet ?k) True st)"
  have kp: "key_of p = ?k" using parent_key [OF wf p] by simp
  have g: "client_Get ?k st = (Inr p, ?s1)" using h p by (simp add: client_Get_found)
  have u: "client_Update (AddFinalizer p finalizer) ?s1 = (Inr p, ?s2)"
    using AddFinalizer_noop_update [of ?s1 p] h p kp f by simp
  have pr2: "provisioned tp p ?s2"
    using pr by (simp add: provisioned_def cong: sum.case_cong prod.case_cong)
  have "deployTailscale tp p ?s2 =
      (Inr (), tick (CGet (sts_child_key p)) True (tick (CGet (svc_child_key p)) True ?s2))"
    using h wf pr2 by (simp add: deployTailscale_unchanged)
  with g u en show ?thesis by (simp add: Reconcile_def)
qed

end
