(* ===== verification/Failures.thy ===== *)
theory Failures
  imports Passes
begin

text \<open>
  Error paths of an enabling pass on a healthy store: a template that cannot be
  read or decoded, and a parent whose UID is too short for \<open>hostName\<close>. Both
  fail only after the finalizer has been persisted; the short UID fails after
  the routing service has been written, leaving a partly provisioned parent that
  no later pass completes.
\<close>

section \<open>Lemmas\<close>

lemma enable_prefix:
  assumes h: "healthy st" and wf: "store_wf st" and p: "lookup st (KService, req) = Some p"
    and en: "\<not> disabled p"
  obtains p' st2 where
    "Reconcile tp req st = deployTailscale tp p' st2"
    "store_wf st2" "healthy st2" "lookup st2 (KService, req) = Some p'" "ContainsFinalizer p' finalizer"
    "m_name (meta p') = m_name (meta p)" "m_uid (meta p') = m_uid (meta p)" "spec p' = spec p"
    "m_namespace (meta p') = m_namespace (meta p)"
    "m_annotations (meta p') = m_annotations (meta p)" "m_deletion (meta p') = m_deletion (meta p)"
    "m_owners (meta p') = m_owners (meta p)"
    "\<forall>k. k \<noteq> (KService, req) \<longrightarrow> lookup st2 k = lookup st k"
proof -
  have kp: "key_of p = (KService, req)" using parent_key [OF wf p] by simp
  let ?s1 = "tick (CGet (KService, req)) True st"
  have g: "client_Get (KService, req) st = (Inr p, ?s1)" using h p by (simp add: client_Get_found)
  have nd: "m_deletion (meta p) = None" using en by (simp add: disabled_def)
  obtain p' st2 where u: "client_Update (AddFinalizer p finalizer) ?s1 = (Inr p', st2)"
    and rest: "store_wf st2" "healthy st2" "lookup st2 (KService, req) = Some p'" "ContainsFinalizer p' finalizer"
      "m_name (meta p') = m_name (meta p)" "m_uid (meta p') = m_uid (meta p)" "spec p' = spec p"
      "m_namespace (meta p') = m_namespace (meta p)"
      "m_annotations (meta p') = m_annotations (meta p)" "m_deletion (meta p') = m_deletion (meta p)"
      "m_owners (meta p') = m_owners (meta p)"
    and fr: "\<forall>k'. k' \<noteq> (KService, req) \<longrightarrow> lookup st2 k' = lookup ?s1 k'"
    using AddFinalizer_update_ok [of ?s1 "(KService, req)" p] h wf p kp nd by auto
  have run: "Reconcile tp req st = deployTailscale tp p' st2" using g en u by (simp add: Reconcile_def)
  have fr': "\<forall>k. k \<noteq> (KService, req) \<longrightarrow> lookup st2 k = lookup st k" using fr by simp
  from run rest fr' show ?thesis by (rule that)
qed

section \<open>Claims\<close>

text \<open>
  C19. A template error is a per-pass error: on a healthy store, a pass for an
  enabled service whose \<open>svc.yaml\<close> cannot be read or decoded returns that
  error after the finalizer has been persisted, and changes no other object.
\<close>

theorem Reconcile_template_error:
  assumes h: "healthy st" and wf: "store_wf st" and p: "lookup st (KService, req) = Some p"
    and en: "\<not> disabled p" and y: "svc_yaml tp = Inl e"
  shows "\<exists>st'. Reconcile tp req st = (Inl e, st')
     \<and> (\<exists>p'. lookup st' (KService, req) = Some p' \<and> ContainsFinalizer p' finalizer)
     \<and> (\<forall>k. k \<noteq> (KService, req) \<longrightarrow> lookup st' k = lookup st k)"
proof -
  obtain p' st2 where r: "Reconcile tp req st = deployTailscale tp p' st2"
    and "store_wf st2" "healthy st2"
    and l: "lookup st2 (KService, req) = Some p'" and f: "ContainsFinalizer p' finalizer"
    and "m_name (meta p') = m_name (meta p)" "m_uid (meta p') = m_uid (meta p)" "spec p' = spec p"
      "m_namespace (meta p') = m_namespace (meta p)"
      "m_annotations (meta p') = m_annotations (meta p)" "m_deletion (meta p') = m_deletion (meta p)"
      "m_owners (meta p') = m_owners (meta p)"
    and fr: "\<forall>k. k \<noteq> (KService, req) \<longrightarrow> lookup st2 k = lookup st k"
    by (rule enable_prefix [OF h wf p en])
  have "Reconcile tp req st = (Inl e, st2)"
    using r y by (simp add: deployTailscale_def reconcileService_def)
  with l f fr show ?thesis by blast
qed

text \<open>
  C20. A UID shorter than 8 bytes: on a healthy store, a pass for an enabled
  service whose templates are well-formed but whose UID is shorter than 8 bytes
  persists the finalizer, writes the routing service, and then ends in the
  slice panic of \<open>hostName\<close> without touching the statefulset.
\<close>

theorem Reconcile_short_uid:
  assumes h: "healthy st" and wf: "store_wf st" and p: "lookup st (KService, req) = Some p"
    and en: "\<not> disabled p" and u: "length (m_uid (meta p)) < 8"
    and y1: "svc_yaml tp = Inr tmpl" and d1: "desired_svc_spec p tmpl = Inr s1"
    and y2: "sts_yaml tp = Inr (nm, ts)" and cs: "p_containers (pt_spec (t_template ts)) \<noteq> []"
    and c: "children_labelled st p"
  shows "\<exists>st'. Reconcile tp req st = (Inl (EPanic ''slice bounds out of range''), st')
     \<and> (\<exists>p'. lookup st' (KService, req) = Some p' \<and> ContainsFinalizer p' finalizer)
     \<and> child_ok p (SvcSpec s1) (lookup st' (svc_child_key p))
     \<and> lookup st' (sts_child_key p) = lookup st (sts_child_key p)"
proof -
  obtain p' st2 where r: "Reconcile tp req st = deployTailscale tp p' st2"
    and w2: "store_wf st2" and h2: "healthy st2"
    and l: "lookup st2 (KService, req) = Some p'" and f: "ContainsFinalizer p' finalizer"
    and same: "m_name (meta p') = m_name (meta p)" "m_uid (meta p') = m_uid (meta p)" "spec p' = spec p"
      "m_namespace (meta p') = m_namespace (meta p)"
      "m_annotations (meta p') = m_annotations (meta p)" "m_deletion (meta p') = m_deletion (meta p)"
      "m_owners (meta p') = m_owners (meta p)"
    and fr: "\<forall>k. k \<noteq> (KService, req) \<longrightarrow> lookup st2 k = lookup st k"
    by (rule enable_prefix [OF h wf p en])
  have req: "req = (m_namespace (meta p), m_name (meta p))" using parent_key [OF wf p] by simp
  have ck: "svc_child_key p' = svc_child_key p" "sts_child_key p' = sts_child_key p"
    using same by (simp_all add: svc_child_key_def sts_child_key_def childName_def)
  have d1': "desired_svc_spec p' tmpl = Inr s1" using d1 same by (simp add: desired_svc_spec_def)
  have "lookup st2 (svc_child_key p) = lookup st (svc_child_key p)"
    using fr [rule_format, of "svc_child_key p"] req by simp
  then have c1: "case lookup st2 (svc_child_key p') of None \<Rightarrow> True | Some c \<Rightarrow> m_labels (meta c) \<noteq> None"
    using c ck by (simp add: children_labelled_def)
  obtain st3 where r1: "reconcileService tp p' st2 = (Inr (), st3)"
    and ok: "child_ok p' (SvcSpec s1) (lookup st3 (svc_child_key p'))"
    and fr3: "\<forall>k. k \<noteq> svc_child_key p' \<longrightarrow> lookup st3 k = lookup st2 k"
    using reconcileService_ok [OF h2 w2 y1 d1' c1] by blast
  have sd: "sts_desired p' (nm, ts) = Inl (EPanic ''slice bounds out of range'')"
    using cs u same by (auto simp: sts_desired_def Let_def hostName_def split: list.splits)
  have run: "Reconcile tp req st = (Inl (EPanic ''slice bounds out of range''), st3)"
    using r r1 y2 sd by (simp add: deployTailscale_def reconcileStatefulSet_def)
  have "lookup st3 (KService, req) = Some p'"
    using fr3 [rule_format, of "(KService, req)"] ck l req by simp
  moreover have "child_ok p (SvcSpec s1) (lookup st3 (svc_child_key p))"
  proof -
    have "owner_ref_of p' = owner_ref_of p" using same by (simp add: owner_ref_of_def)
    then have "child_ok p' = child_ok p" using same(1) by (simp add: child_ok_def fun_eq_iff split: option.splits)
    with ok ck show ?thesis by simp
  qed
  moreover have "lookup st3 (sts_child_key p) = lookup st (sts_child_key p)"
    using fr3 [rule_format, of "sts_child_key p"] fr [rule_format, of "sts_child_key p"] ck req by simp
  ultimately show ?thesis using run f by blast
qed

end
