(* ===== verification/Cluster.thy ===== *)
theory Cluster
  imports Passes
begin

text \<open>
  Runs of the operator: any sequence of reconcile passes, for any requests, in
  any order, under any fault schedule (\<open>operator_run\<close>, an inductive relation,
  the reflexive-transitive closure of single passes). The work queue may deliver
  any key at any time and retries failed ones, so every such sequence is a
  possible behaviour of the controller between user edits. Lemmas: which writes
  keep a service that is pending deletion, holds the finalizer and has no
  device-ID annotation (\<open>pinned\<close>) in that state. Claim: such a service
  is never released (C22); the finalizer invariant along runs is in
  \<^theory_text>\<open>Guard\<close>.
\<close>

section \<open>Definitions\<close>

inductive operator_run :: "templates \<Rightarrow> store \<Rightarrow> store \<Rightarrow> bool" for tp where
  start: "operator_run tp st st"
| pass: "operator_run tp st s \<Longrightarrow> Reconcile tp req s = (r, s') \<Longrightarrow> operator_run tp st s'"

text \<open>Deletion requested, finalizer held, no device-ID annotation.\<close>

definition pinned :: "kobj \<Rightarrow> bool" where
  "pinned ob \<longleftrightarrow> m_deletion (meta ob) \<noteq> None \<and> ContainsFinalizer ob finalizer
     \<and> gm_get (m_annotations (meta ob)) deviceIDAnnotation = None"

definition pinned_at :: "objkey \<Rightarrow> store \<Rightarrow> bool" where
  "pinned_at k st = (case lookup st k of None \<Rightarrow> False | Some q \<Rightarrow> pinned q)"

text \<open>What a write to the key of a pinned object must carry to keep it pinned.\<close>

definition keeps_pin :: "kobj \<Rightarrow> bool" where
  "keeps_pin ob \<longleftrightarrow> ContainsFinalizer ob finalizer \<and> gm_get (m_annotations (meta ob)) deviceIDAnnotation = None"

text \<open>A mutation that leaves finalizers and annotations alone.\<close>

definition meta_stable :: "(kobj \<Rightarrow> error + kobj) \<Rightarrow> bool" where
  "meta_stable f \<longleftrightarrow> (\<forall>ex m. f ex = Inr m \<longrightarrow>
     m_finalizers (meta m) = m_finalizers (meta ex) \<and> m_annotations (meta m) = m_annotations (meta ex))"

section \<open>Lemmas: single calls\<close>

lemma pinned_at_frame: "confined K st st' \<Longrightarrow> k \<notin> K \<Longrightarrow> pinned_at k st \<Longrightarrow> pinned_at k st'"
  by (simp add: pinned_at_def confined_lookup)

lemma pinned_at_tick [simp]: "pinned_at k (tick c b st) = pinned_at k st"
  by (simp add: pinned_at_def)

lemma client_Update_pinned:
  assumes r: "client_Update ob st = (r, st')" and pin: "pinned_at k st"
    and keep: "key_of ob = k \<Longrightarrow> keeps_pin ob"
  shows "pinned_at k st'"
proof (cases "key_of ob = k")
  case False
  with pin show ?thesis by (blast intro: pinned_at_frame client_Update_confined [OF r])
next
  case True
  obtain q where q: "lookup st k = Some q" "pinned q" using pin by (auto simp: pinned_at_def split: option.splits)
  from r show ?thesis
  proof (cases rule: client_Update_cases)
    case fail then show ?thesis using pin by simp
  next
    case (put cur)
    then show ?thesis using q True keep by (simp add: pinned_at_def pinned_def keeps_pin_def ContainsFinalizer_def)
  next
    case (noop cur)
    then show ?thesis using pin by simp
  next
    case (del cur)
    then show ?thesis using True keep by (simp add: keeps_pin_def ContainsFinalizer_def)
  qed
qed

lemma client_Create_pinned:
  assumes r: "client_Create ob st = (r, st')" and pin: "pinned_at k st" shows "pinned_at k st'"
proof (cases "key_of ob = k")
  case False
  with pin show ?thesis by (blast intro: pinned_at_frame client_Create_confined [OF r])
next
  case True
  obtain q where "lookup st (key_of ob) = Some q" using pin True by (auto simp: pinned_at_def split: option.splits)
  with r pin show ?thesis by (cases "fault st (calls st)") (auto simp: store_simps)
qed

lemma CreateOrUpdate_pinned:
  assumes r: "CreateOrUpdate obj f st = (r, st')" and pin: "pinned_at k st" and f: "meta_stable f"
  shows "pinned_at k st'"
proof (cases "key_of obj = k")
  case False
  with pin show ?thesis by (blast intro: pinned_at_frame CreateOrUpdate_confined [OF r])
next
  case True
  obtain q where q: "lookup st k = Some q" "pinned q" using pin by (auto simp: pinned_at_def split: option.splits)
  show ?thesis
  proof (cases "fault st (calls st)")
    case True
    with r pin show ?thesis by (auto simp: store_simps)
  next
    case nf: False
    let ?s1 = "tick (CGet (key_of obj)) True st"
    have p1: "pinned_at k ?s1" using pin by simp
    show ?thesis
    proof (cases "mutate f (key_of obj) q")
      case (Inl e)
      with r nf q True p1 show ?thesis by (auto simp: CreateOrUpdate_present)
    next
      case (Inr m)
      have km: "key_of m = k" using mutate_key [OF Inr] True by simp
      have "f q = Inr m" using Inr by (auto simp: mutate_def split: sum.splits if_splits)
      then have "keeps_pin m" using f q(2) by (simp add: meta_stable_def keeps_pin_def pinned_def ContainsFinalizer_def)
      obtain r2 s2 where u: "client_Update m ?s1 = (r2, s2)" by (cases "client_Update m ?s1")
      have "pinned_at k s2" using client_Update_pinned [OF u p1] \<open>keeps_pin m\<close> by blast
      moreover have "st' = ?s1 \<or> st' = s2"
        using r nf q True Inr u by (cases r2) (auto simp: CreateOrUpdate_present split: if_splits)
      ultimately show ?thesis using p1 by blast
    qed
  qed
qed

section \<open>Lemmas: the operations of a pass\<close>

lemma owned_mutation_stable:
  assumes f: "meta_stable fn" shows "meta_stable (owned_mutation owner fn)"
  using f by (auto simp: meta_stable_def owned_mutation_def SetOwnerReference_def split: sum.splits if_splits)

lemma svc_mutate_stable: "meta_stable (svc_mutate p tmpl)"
  by (auto simp: meta_stable_def svc_mutate_def split: sum.splits)

lemma sts_mutate_stable: "meta_stable (sts_mutate p ds)"
  by (auto simp: meta_stable_def sts_mutate_def split: sum.splits)

lemma createOrUpdate_pinned:
  assumes r: "createOrUpdate owner obj fn st = (r, st')" and pin: "pinned_at k st" and f: "meta_stable fn"
  shows "pinned_at k st'"
proof -
  obtain r1 where "CreateOrUpdate obj (owned_mutation owner fn) st = (r1, st')"
    using r by (cases "CreateOrUpdate obj (owned_mutation owner fn) st")
      (auto simp: createOrUpdate_def split: sum.splits)
  from CreateOrUpdate_pinned [OF this pin owned_mutation_stable [OF f]] show ?thesis .
qed

lemma deployTailscale_pinned:
  assumes r: "deployTailscale tp p st = (r, st')" and pin: "pinned_at k st" shows "pinned_at k st'"
proof -
  obtain r1 s1 where a: "reconcileService tp p st = (r1, s1)" by (cases "reconcileService tp p st")
  have p1: "pinned_at k s1"
    using a pin by (auto simp: reconcileService_def split: sum.splits
        intro: createOrUpdate_pinned svc_mutate_stable)
  show ?thesis
  proof (cases r1)
    case (Inl e)
    with r a p1 show ?thesis by (simp add: deployTailscale_def)
  next
    case (Inr u)
    with r a have "reconcileStatefulSet tp p s1 = (r, st')" by (simp add: deployTailscale_def)
    with p1 show ?thesis
      by (auto simp: reconcileStatefulSet_def split: sum.splits intro: createOrUpdate_pinned sts_mutate_stable)
  qed
qed

lemma handleDelete_pinned:
  assumes r: "handleDelete p st = (r, st')" and pin: "pinned_at k st"
    and same: "key_of p = k \<Longrightarrow> lookup st k = Some p"
  shows "pinned_at k st'"
proof (cases "ContainsFinalizer p finalizer \<and> gm_get (m_annotations (meta p)) deviceIDAnnotation \<noteq> None")
  case False
  with r pin show ?thesis by (auto simp: handleDelete_def split: option.splits)
next
  case True
  then obtain d where d: "gm_get (m_annotations (meta p)) deviceIDAnnotation = Some d" by auto
  obtain r1 s1 where u0: "client_Update (RemoveFinalizer p finalizer) st = (r1, s1)"
    by (cases "client_Update (RemoveFinalizer p finalizer) st")
  have "st' = s1" using r True d u0 by (cases r1) (simp_all add: handleDelete_def)
  with u0 have u: "client_Update (RemoveFinalizer p finalizer) st = (r1, st')" by simp
  have "key_of p \<noteq> k"
  proof
    assume "key_of p = k"
    with same pin d show False by (simp add: pinned_at_def pinned_def)
  qed
  with client_Update_pinned [OF u pin] show ?thesis by simp
qed

text \<open>The finalizer update of the enable path never writes a pinned object: a pinned parent is disabled.\<close>

lemma AddFinalizer_pinned:
  assumes wf: "store_wf st" and g: "client_Get (KService, req) st = (Inr p, s1)" and en: "\<not> disabled p"
    and u: "client_Update (AddFinalizer p finalizer) s1 = (r2, s2)" and pin: "pinned_at k st"
  shows "pinned_at k s2"
proof -
  have s1: "s1 = tick (CGet (KService, req)) True st" using g by (auto dest: client_Get_trace)
  have kp: "key_of p = (KService, req)" using wf g by (rule parent_of_get)
  have p1: "pinned_at k s1" using pin s1 by simp
  have kk: "key_of (AddFinalizer p finalizer) = k \<Longrightarrow> keeps_pin (AddFinalizer p finalizer)"
  proof -
    assume "key_of (AddFinalizer p finalizer) = k"
    with kp client_Get_Inr [OF g] pin en have False by (simp add: pinned_at_def pinned_def disabled_def)
    then show ?thesis ..
  qed
  show ?thesis by (rule client_Update_pinned [OF u p1 kk])
qed

lemma Reconcile_pinned:
  assumes wf: "store_wf st" and r: "Reconcile tp req st = (r, st')" and pin: "pinned_at k st"
  shows "pinned_at k st'"
using r proof (cases rule: Reconcile_cases)
  case (get_fail e)
  with pin show ?thesis by (auto dest: client_Get_trace)
next
  case (teardown p s1)
  have s1: "s1 = tick (CGet (KService, req)) True st" using teardown(1) by (auto dest: client_Get_trace)
  have "key_of p = (KService, req)" using wf teardown(1) by (rule parent_of_get)
  then have "key_of p = k \<Longrightarrow> lookup s1 k = Some p" using client_Get_Inr [OF teardown(1)] s1 by simp
  with handleDelete_pinned [OF teardown(3)] pin s1 show ?thesis by simp
next
  case (fin_fail p s1 e)
  with wf pin show ?thesis by (blast intro: AddFinalizer_pinned)
next
  case (deploy p s1 p' s2)
  with wf pin have "pinned_at k s2" by (blast intro: AddFinalizer_pinned)
  with deployTailscale_pinned [OF deploy(4)] show ?thesis .
qed

section \<open>Claims\<close>

text \<open>
  C22. Deletion never completes: a service whose deletion was requested, that
  holds the finalizer and has no device-ID annotation stays in the store in that
  state along every run of the operator, whatever requests are delivered and
  whatever fails; no pass removes the finalizer or adds the annotation.
\<close>

theorem deletion_blocked:
  assumes run: "operator_run tp st st'" and wf: "store_wf st" and pin: "pinned_at k st"
  shows "pinned_at k st'"
proof -
  from run wf pin have "store_wf st' \<and> pinned_at k st'"
  proof (induction rule: operator_run.induct)
    case (start s)
    then show ?case by simp
  next
    case (pass s0 s req r s')
    then show ?case by (blast intro: Reconcile_wf Reconcile_pinned)
  qed
  then show ?thesis by simp
qed

end
