(* ===== verification/Watch.thy ===== *)
theory Watch
  imports Objects
begin

text \<open>
  The controller registration of \<open>New\<close> (controller.go): which object events
  become reconcile requests. \<open>For(&corev1.Service{})\<close> enqueues the key of
  the changed service itself; each \<open>Owns(..)\<close> enqueues, through
  \<open>handler.EnqueueRequestForOwner{OwnerType: Service, IsController: true}\<close>,
  the owner named by the object's controller reference
  (\<open>metav1.GetControllerOf\<close>: the first owner reference with
  \<open>Controller = true\<close>), when that owner is a core-group Service. The
  informer and work queue around these mappings are not modelled.
\<close>

section \<open>Definitions\<close>

datatype watch = For kind | Owns kind

definition New :: "watch list" where
  "New = [For KService, Owns KStatefulSet, Owns KService]"

definition controller_of :: "kobj \<Rightarrow> owner_ref option" where
  "controller_of ob = find (\<lambda>r. or_controller r = Some True) (m_owners (meta ob))"

definition enqueue_owner :: "kobj \<Rightarrow> (string \<times> string) list" where
  "enqueue_owner ob = (case controller_of ob of
       None \<Rightarrow> []
     | Some r \<Rightarrow> if gv_group (or_apiVersion r) = [] \<and> or_kind r = ''Service''
                 then [(m_namespace (meta ob), or_name r)] else [])"

primrec watch_requests :: "watch \<Rightarrow> kobj \<Rightarrow> (string \<times> string) list" where
  "watch_requests (For k) ob = (if kind_of (spec ob) = k then [(m_namespace (meta ob), m_name (meta ob))] else [])"
| "watch_requests (Owns k) ob = (if kind_of (spec ob) = k then enqueue_owner ob else [])"

text \<open>The requests an add, update or delete event on \<open>ob\<close> enqueues.\<close>

definition requests :: "kobj \<Rightarrow> (string \<times> string) list" where
  "requests ob = concat (map (\<lambda>w. watch_requests w ob) New)"

section \<open>Lemmas\<close>

lemma controller_of_None: "list_all (\<lambda>r. or_controller r = None) (m_owners (meta ob)) \<Longrightarrow> controller_of ob = None"
  by (auto simp: controller_of_def find_None_iff list_all_iff)

lemma SetOwnerReference_no_controller:
  assumes a: "list_all (\<lambda>r. or_controller r = None) (m_owners (meta ob))"
    and s: "SetOwnerReference p ob = Inr ob'"
  shows "list_all (\<lambda>r. or_controller r = None) (m_owners (meta ob'))"
proof -
  have "set (m_owners (meta ob')) \<subseteq> insert (owner_ref_of p) (set (m_owners (meta ob)))"
    using s upsertOwnerRef_subset [of "owner_ref_of p" "m_owners (meta ob)"]
    by (auto simp: SetOwnerReference_def split: if_splits)
  moreover have "or_controller (owner_ref_of p) = None" by (simp add: owner_ref_of_def)
  ultimately show ?thesis using a by (auto simp: list_all_iff)
qed

section \<open>Claim\<close>

text \<open>
  C21. Child events do not reach the parent: the owner reference that
  \<open>createOrUpdate\<close> sets with \<open>SetOwnerReference\<close> leaves \<open>Controller\<close>
  unset, so for a child with no other controller reference an event on it
  enqueues no request for its owner: a statefulset child enqueues nothing, and a
  Service child only its own key (through \<open>For\<close>), never the parent's.
\<close>

theorem child_events_not_enqueued:
  assumes a: "list_all (\<lambda>r. or_controller r = None) (m_owners (meta ob))"
    and s: "SetOwnerReference p ob = Inr ob'"
  shows "requests ob' = (if kind_of (spec ob) = KService then [(m_namespace (meta ob), m_name (meta ob))] else [])"
proof -
  have "controller_of ob' = None" using SetOwnerReference_no_controller [OF a s] by (rule controller_of_None)
  moreover have "spec ob' = spec ob" "m_namespace (meta ob') = m_namespace (meta ob)"
    "m_name (meta ob') = m_name (meta ob)"
    using s by (auto simp: SetOwnerReference_def split: if_splits)
  ultimately show ?thesis by (cases "kind_of (spec ob)") (simp_all add: requests_def New_def enqueue_owner_def)
qed

end
