(* ===== verification/Startup.thy ===== *)
theory Startup
  imports Watch
begin

text \<open>
  \<open>main\<close> (main.go): create the manager, register the controller of \<open>New\<close>
  on it, start it; each failure is logged and ends the process with exit code 1.
  The three library calls are parameters returning an error or a value: the
  manager constructor, the registration (\<open>controller.New\<close>, whose watches are
  \<^theory_text>\<open>Watch.New\<close>) and \<open>manager.Start\<close>, which returns when the signal
  handler stops the manager. The result is the calls made, the lines logged and
  the exit code. Setting the logger is not modelled; the \<open>tailscale-image\<close>
  flag is declared but never parsed or read, so it has no effect.
\<close>

section \<open>Definitions\<close>

datatype startup_call = CNewManager | CRegister | CStart

definition main :: "error + 'm \<Rightarrow> ('m \<Rightarrow> error + unit) \<Rightarrow> ('m \<Rightarrow> error + unit)
    \<Rightarrow> startup_call list \<times> string list \<times> nat" where
  "main newManager register start =
     (case newManager of
        Inl e \<Rightarrow> ([CNewManager], [''could not create manager''], 1)
      | Inr mgr \<Rightarrow>
          (case register mgr of
             Inl e \<Rightarrow> ([CNewManager, CRegister], [''could not create manager''], 1)
           | Inr _ \<Rightarrow>
               (case start mgr of
                  Inl e \<Rightarrow> ([CNewManager, CRegister, CStart], [''could not start manager''], 1)
                | Inr _ \<Rightarrow> ([CNewManager, CRegister, CStart], [], 0))))"

section \<open>Claim\<close>

text \<open>
  C23. Start-up: the manager is started only after it was created and the
  controller was registered on it, and the process exits with code 0 exactly
  when all three steps succeed; every failure logs one line and exits with 1.
  A failed registration logs the same message as a failed manager creation.
\<close>

theorem main_startup:
  "(CStart \<in> set (fst (main m reg start)) \<longleftrightarrow> (\<exists>mgr. m = Inr mgr \<and> reg mgr = Inr ()))
   \<and> (snd (snd (main m reg start)) = 0 \<longleftrightarrow> (\<exists>mgr. m = Inr mgr \<and> reg mgr = Inr () \<and> start mgr = Inr ()))
   \<and> snd (snd (main m reg start)) \<in> {0, 1}
   \<and> (snd (snd (main m reg start)) = 1 \<longleftrightarrow> length (fst (snd (main m reg start))) = 1)
   \<and> (fst (snd (main m reg start)) = [''could not create manager''] \<longleftrightarrow>
        (\<exists>e. m = Inl e) \<or> (\<exists>mgr e. m = Inr mgr \<and> reg mgr = Inl e))"
  by (auto simp: main_def split: sum.splits)

end
