(* ===== verification/Refinement.thy ===== *)
theory Refinement
  imports Passes
begin

text \<open>
  An abstract specification of one pass and the proof that \<open>Reconcile\<close>
  implements it. The abstract state forgets what the API server owns (resource
  versions, UIDs, the call log, the fault schedule) and how a Go map is laid out:
  it maps each key to the labels and annotations read as functions, the
  finalizers, the deletion timestamp, the owner references, and the spec read
  the way \<open>equality.Semantic.DeepEqual\<close> compares it. On it a pass is a
  sequence of abstract writes in the code's order: persist the finalizer, then
  create or update each child through \<open>upsert_spec\<close>, stopping at the first
  error; or, on a disabled service, the teardown. The refinement lemma is
  functional: the abstraction of the concrete result is the abstract result.
\<close>

section \<open>The abstract state\<close>

text \<open>A spec as \<open>DeepEqual\<close> sees it: maps by their contents, a nil selector apart.\<close>

datatype aspec =
    ASvc "string \<Rightarrow> string option" string "nat list"
  | ASts "nat option" "(string \<Rightarrow> string option) option" string "string \<Rightarrow> string option" pod_spec

primrec view_spec :: "kspec \<Rightarrow> aspec" where
  "view_spec (SvcSpec s) = ASvc (gm_get (s_selector s)) (s_clusterIP s) (s_ports s)"
| "view_spec (StsSpec t) = ASts (t_replicas t) (map_option (\<lambda>l. gm_get (matchLabels l)) (t_selector t))
     (t_serviceName t) (gm_get (pt_labels (t_template t))) (pt_spec (t_template t))"

record aobj =
  a_labels :: "string \<Rightarrow> string option"
  a_annotations :: "string \<Rightarrow> string option"
  a_finalizers :: "string list"
  a_deletion :: "nat option"
  a_owners :: "owner_ref list"
  a_spec :: aspec

type_synonym astore = "objkey \<Rightarrow> aobj option"

definition aobj_of :: "kobj \<Rightarrow> aobj" where
  "aobj_of ob = \<lparr>a_labels = gm_get (m_labels (meta ob)), a_annotations = gm_get (m_annotations (meta ob)),
     a_finalizers = m_finalizers (meta ob), a_deletion = m_deletion (meta ob),
     a_owners = m_owners (meta ob), a_spec = view_spec (spec ob)\<rparr>"

definition view :: "store \<Rightarrow> astore" where
  "view st k = map_option aobj_of (lookup st k)"

section \<open>The abstract pass\<close>

text \<open>\<open>CreateOrUpdate\<close> on the abstract state: mutate the stored object, or the in-memory one.\<close>

definition upsert_spec :: "objkey \<Rightarrow> aobj \<Rightarrow> (aobj \<Rightarrow> aobj) \<Rightarrow> astore \<Rightarrow> astore" where
  "upsert_spec k a0 f A = A(k \<mapsto> f (case A k of None \<Rightarrow> a0 | Some a \<Rightarrow> a))"

text \<open>The closures of \<open>reconcileService\<close> and \<open>reconcileStatefulSet\<close> after \<open>SetOwnerReference\<close>.\<close>

definition child_upd :: "kobj \<Rightarrow> kspec \<Rightarrow> aobj \<Rightarrow> aobj" where
  "child_upd p s a = a\<lparr>a_labels := (a_labels a)(''svc'' \<mapsto> m_name (meta p)),
     a_owners := upsertOwnerRef (owner_ref_of p) (a_owners a), a_spec := view_spec s\<rparr>"

definition add_finalizer_spec :: "aobj \<Rightarrow> aobj" where
  "add_finalizer_spec a = a\<lparr>a_finalizers :=
     (if finalizer \<in> set (a_finalizers a) then a_finalizers a else a_finalizers a @ [finalizer])\<rparr>"

text \<open>Teardown: drop the finalizer when the device ID is known; the last one gone, the object is.\<close>

definition teardown_spec :: "kobj \<Rightarrow> astore \<Rightarrow> astore" where
  "teardown_spec p A =
     (if ContainsFinalizer p finalizer \<and> gm_get (m_annotations (meta p)) deviceIDAnnotation \<noteq> None
      then (let a = (aobj_of p)\<lparr>a_finalizers := filter (\<lambda>e. e \<noteq> finalizer) (m_finalizers (meta p))\<rparr> in
            if a_deletion a \<noteq> None \<and> a_finalizers a = [] then A(key_of p := None) else A(key_of p \<mapsto> a))
      else A)"

text \<open>\<open>deployTailscale\<close>: the routing service, then the statefulset; the first error stops it.\<close>

definition deploy_spec :: "templates \<Rightarrow> kobj \<Rightarrow> astore \<Rightarrow> (error + unit) \<times> astore" where
  "deploy_spec tp p A =
     (case svc_yaml tp of
        Inl e \<Rightarrow> (Inl e, A)
      | Inr tmpl \<Rightarrow>
          (case desired_svc_spec p tmpl of
             Inl e \<Rightarrow> (Inl e, A)
           | Inr s1 \<Rightarrow>
               (let A2 = upsert_spec (svc_child_key p) (aobj_of (svc_orig p)) (child_upd p (SvcSpec s1)) A in
                case sts_yaml tp of
                  Inl e \<Rightarrow> (Inl e, A2)
                | Inr t \<Rightarrow>
                    (case sts_desired p t of
                       Inl e \<Rightarrow> (Inl e, A2)
                     | Inr s2 \<Rightarrow>
                         (Inr (), upsert_spec (sts_child_key p) (aobj_of (sts_orig p)) (child_upd p (StsSpec s2)) A2)))))"

definition reconcile_spec :: "templates \<Rightarrow> kobj \<Rightarrow> astore \<Rightarrow> (error + unit) \<times> astore" where
  "reconcile_spec tp p A =
     (if disabled p then (Inr (), teardown_spec p A)
      else deploy_spec tp p (A(key_of p \<mapsto> add_finalizer_spec (aobj_of p))))"

section \<open>Lemmas: the abstraction\<close>

lemma kspec_eq_view: "kspec_eq a b \<longleftrightarrow> view_spec a = view_spec b"
  by (cases a; cases b)
    (auto simp: svc_spec_eq_def sts_spec_eq_def sel_eq_def gm_eq_iff split: option.splits)

lemma DeepEqual_view: "DeepEqual a b \<Longrightarrow> aobj_of a = aobj_of b"
  by (simp add: DeepEqual_def meta_eq_def gm_eq_iff kspec_eq_view aobj_of_def)

lemma view_Some: "view st k = Some a \<Longrightarrow> \<exists>c. lookup st k = Some c \<and> aobj_of c = a"
  by (auto simp: view_def)

lemma view_tick [simp]: "view (tick c b st) = view st"
  by (simp add: view_def fun_eq_iff)

lemma view_put [simp]:
  "view (st'\<lparr>objs := AList.update k v (objs st), rv_next := n\<rparr>) = (view st)(k \<mapsto> aobj_of v)"
  by (simp add: view_def fun_eq_iff update_conv' lookup_def)

lemma view_del [simp]:
  "view (st'\<lparr>objs := AList.delete k (objs st), rv_next := n\<rparr>) = (view st)(k := None)"
  by (simp add: view_def fun_eq_iff delete_conv' lookup_def)

lemma aobj_of_updated [simp]:
  "aobj_of (updated st cur ob) = (aobj_of ob)\<lparr>a_deletion := m_deletion (meta cur)\<rparr>"
  by (simp add: aobj_of_def updated_def)

lemma aobj_of_created [simp]: "aobj_of (created st ob) = (aobj_of ob)\<lparr>a_deletion := None\<rparr>"
  by (simp add: aobj_of_def created_def)

lemma aobj_of_noop:
  assumes "noop_update cur ob" shows "aobj_of cur = (aobj_of ob)\<lparr>a_deletion := m_deletion (meta cur)\<rparr>"
proof -
  have e: "ob\<lparr>meta := (meta ob)\<lparr>m_uid := m_uid (meta cur), m_deletion := m_deletion (meta cur)\<rparr>\<rparr> = cur"
    using assms by (simp add: noop_update_def)
  have "aobj_of cur = aobj_of (ob\<lparr>meta := (meta ob)\<lparr>m_uid := m_uid (meta cur), m_deletion := m_deletion (meta cur)\<rparr>\<rparr>)"
    by (simp only: e)
  then show ?thesis by (simp add: aobj_of_def)
qed

lemma aobj_deletion_same [simp]: "m_deletion (meta ob) = d \<Longrightarrow> (aobj_of ob)\<lparr>a_deletion := d\<rparr> = aobj_of ob"
  by (simp add: aobj_of_def)

section \<open>Lemmas: the client calls on the abstract state\<close>

lemma client_Update_view:
  assumes nf: "\<not> fault st (calls st)" and c: "lookup st (key_of ob) = Some cur"
    and rv: "m_rv (meta cur) = m_rv (meta ob)"
  shows "\<exists>ob' st'. client_Update ob st = (Inr ob', st') \<and>
     view st' = (if m_deletion (meta cur) \<noteq> None \<and> m_finalizers (meta ob) = [] then (view st)(key_of ob := None)
                 else (view st)(key_of ob \<mapsto> (aobj_of ob)\<lparr>a_deletion := m_deletion (meta cur)\<rparr>))"
proof (cases "m_deletion (meta cur) \<noteq> None \<and> m_finalizers (meta ob) = []")
  case True
  with nf c rv show ?thesis by (simp add: client_Update_delete)
next
  case nd: False
  show ?thesis
  proof (cases "noop_update cur ob")
    case True
    have "view st (key_of ob) = Some (aobj_of cur)" using c by (simp add: view_def)
    then have "(view st)(key_of ob \<mapsto> (aobj_of ob)\<lparr>a_deletion := m_deletion (meta cur)\<rparr>) = view st"
      using aobj_of_noop [OF True] by (simp add: fun_upd_idem)
    with nf c rv nd True show ?thesis unfolding if_not_P [OF nd] by (simp add: client_Update_noop)
  next
    case False
    with nf c rv nd show ?thesis unfolding if_not_P [OF nd] by (simp add: client_Update_ok)
  qed
qed

text \<open>\<open>createOrUpdate\<close> on the abstract state: the mutated object replaces the stored one.\<close>

lemma createOrUpdate_view:
  assumes h: "healthy st" and wf: "store_wf st"
    and m: "owned_mutation owner fn (base_of st obj) = Inr m"
    and key: "key_of m = key_of obj"
    and rv: "m_rv (meta m) = m_rv (meta (base_of st obj))"
    and fin: "m_finalizers (meta m) = m_finalizers (meta (base_of st obj))"
    and del: "m_deletion (meta m) = m_deletion (meta (base_of st obj))"
    and nd: "m_deletion (meta obj) = None"
  shows "map_prod id view (createOrUpdate owner obj fn st) = (Inr (), (view st)(key_of obj \<mapsto> aobj_of m))"
proof (cases "lookup st (key_of obj)")
  case None
  let ?s1 = "tick (CGet (key_of obj)) False st"
  have mu: "mutate (owned_mutation owner fn) (key_of obj) obj = Inr m"
    using m key None by (simp add: mutate_def base_of_def)
  have la: "lookup ?s1 (key_of m) = None" using None key by simp
  have dm: "m_deletion (meta m) = None" using del nd None by (simp add: base_of_def)
  show ?thesis using h None mu la key dm by (simp add: createOrUpdate_def store_simps)
next
  case (Some ex)
  let ?s1 = "tick (CGet (key_of obj)) True st"
  have mu: "mutate (owned_mutation owner fn) (key_of obj) ex = Inr m"
    using m key Some by (simp add: mutate_def base_of_def)
  have vex: "view st (key_of obj) = Some (aobj_of ex)" using Some by (simp add: view_def)
  show ?thesis
  proof (cases "DeepEqual ex m")
    case True
    have "(view st)(key_of obj \<mapsto> aobj_of m) = view st"
      using vex DeepEqual_view [OF True] by (simp add: fun_upd_idem)
    with h Some mu True show ?thesis by (simp add: createOrUpdate_def store_simps)
  next
    case False
    have la: "lookup ?s1 (key_of m) = Some ex" using Some key by simp
    have exwf: "obj_wf (rv_next st) (key_of obj) ex" using wf Some by (rule store_wf_lookup)
    have rv': "m_rv (meta ex) = m_rv (meta m)" using rv Some by (simp add: base_of_def)
    have nodel: "\<not> (m_deletion (meta ex) \<noteq> None \<and> m_finalizers (meta m) = [])"
      using exwf fin Some by (auto simp: obj_wf_def base_of_def)
    have dm: "m_deletion (meta m) = m_deletion (meta ex)" using del Some by (simp add: base_of_def)
    obtain ob' st' where u: "client_Update m ?s1 = (Inr ob', st')"
      and v: "view st' = (view ?s1)(key_of m \<mapsto> (aobj_of m)\<lparr>a_deletion := m_deletion (meta ex)\<rparr>)"
      using client_Update_view [of ?s1 m ex] h la rv' nodel by auto
    have "createOrUpdate owner obj fn st = (Inr (), st')"
      using h Some mu False u by (simp add: createOrUpdate_def store_simps)
    with v key dm show ?thesis by simp
  qed
qed

lemma createOrUpdate_view_err:
  assumes h: "healthy st" and m: "owned_mutation owner fn (base_of st obj) = Inl e"
  shows "map_prod id view (createOrUpdate owner obj fn st) = (Inl e, view st)"
  using h m by (cases "lookup st (key_of obj)")
    (simp_all add: createOrUpdate_def store_simps mutate_def base_of_def)

lemma upsert_spec_base:
  "upsert_spec (key_of obj) (aobj_of obj) f (view st) = (view st)(key_of obj \<mapsto> f (aobj_of (base_of st obj)))"
  by (simp add: upsert_spec_def view_def base_of_def split: option.splits)

section \<open>Lemmas: the closures on the abstract state\<close>

lemma svc_child_view:
  assumes k: "key_of b = svc_child_key p" and l: "m_labels (meta b) = Some ls"
  shows "case desired_svc_spec p tmpl of
       Inl e \<Rightarrow> owned_mutation p (svc_mutate p tmpl) b = Inl e
     | Inr s1 \<Rightarrow> (\<exists>m. owned_mutation p (svc_mutate p tmpl) b = Inr m \<and> key_of m = key_of b
         \<and> m_rv (meta m) = m_rv (meta b) \<and> m_finalizers (meta m) = m_finalizers (meta b)
         \<and> m_deletion (meta m) = m_deletion (meta b) \<and> aobj_of m = child_upd p (SvcSpec s1) (aobj_of b))"
proof -
  have ns: "m_namespace (meta p) = m_namespace (meta b)"
    using k by (simp add: key_of_def svc_child_key_def)
  have kb: "kind_of (spec b) = KService" using k by (simp add: key_of_def svc_child_key_def)
  show ?thesis
    using ns l kb
    by (auto simp: owned_mutation_def SetOwnerReference_same_ns svc_mutate_def desired_svc_spec_def
        gm_put_def key_of_def aobj_of_def child_upd_def update_conv' fun_eq_iff split: option.splits)
qed

lemma sts_child_view:
  assumes k: "key_of b = sts_child_key p" and l: "m_labels (meta b) = Some ls"
  shows "\<exists>m. owned_mutation p (sts_mutate p ds) b = Inr m \<and> key_of m = key_of b
         \<and> m_rv (meta m) = m_rv (meta b) \<and> m_finalizers (meta m) = m_finalizers (meta b)
         \<and> m_deletion (meta m) = m_deletion (meta b) \<and> aobj_of m = child_upd p (StsSpec ds) (aobj_of b)"
proof -
  have ns: "m_namespace (meta p) = m_namespace (meta b)"
    using k by (simp add: key_of_def sts_child_key_def)
  have kb: "kind_of (spec b) = KStatefulSet" using k by (simp add: key_of_def sts_child_key_def)
  show ?thesis
    using ns l kb
    by (simp add: owned_mutation_def SetOwnerReference_same_ns sts_mutate_def
        key_of_def aobj_of_def child_upd_def update_conv' fun_eq_iff)
qed

section \<open>Lemmas: the parts of a pass on the abstract state\<close>

lemma reconcileService_view:
  assumes h: "healthy st" and wf: "store_wf st"
    and c: "case lookup st (svc_child_key p) of None \<Rightarrow> True | Some c \<Rightarrow> m_labels (meta c) \<noteq> None"
  shows "map_prod id view (reconcileService tp p st) =
     (case svc_yaml tp of
        Inl e \<Rightarrow> (Inl e, view st)
      | Inr tmpl \<Rightarrow>
          (case desired_svc_spec p tmpl of
             Inl e \<Rightarrow> (Inl e, view st)
           | Inr s1 \<Rightarrow> (Inr (), upsert_spec (svc_child_key p) (aobj_of (svc_orig p)) (child_upd p (SvcSpec s1)) (view st))))"
proof (cases "svc_yaml tp")
  case (Inl e)
  then show ?thesis by (simp add: reconcileService_def)
next
  case (Inr tmpl)
  let ?b = "base_of st (svc_orig p)"
  have "key_of ?b = svc_child_key p \<and> (\<exists>ls. m_labels (meta ?b) = Some ls)"
    by (rule base_of_child [OF wf _ _ c]) (simp_all add: svc_orig_def new_meta_def key_of_def svc_child_key_def)
  then obtain ls where kb: "key_of ?b = svc_child_key p" and lb: "m_labels (meta ?b) = Some ls" by blast
  have nd: "m_deletion (meta (svc_orig p)) = None" by (simp add: svc_orig_def new_meta_def)
  have cv: "case desired_svc_spec p tmpl of
       Inl e \<Rightarrow> owned_mutation p (svc_mutate p tmpl) ?b = Inl e
     | Inr s1 \<Rightarrow> (\<exists>m. owned_mutation p (svc_mutate p tmpl) ?b = Inr m \<and> key_of m = key_of ?b
         \<and> m_rv (meta m) = m_rv (meta ?b) \<and> m_finalizers (meta m) = m_finalizers (meta ?b)
         \<and> m_deletion (meta m) = m_deletion (meta ?b) \<and> aobj_of m = child_upd p (SvcSpec s1) (aobj_of ?b))"
    by (rule svc_child_view [OF kb lb])
  show ?thesis
  proof (cases "desired_svc_spec p tmpl")
    case (Inl e)
    with cv have "owned_mutation p (svc_mutate p tmpl) ?b = Inl e" by simp
    with h Inr Inl show ?thesis by (simp add: reconcileService_def createOrUpdate_view_err)
  next
    case (Inr s1)
    with cv obtain m where m: "owned_mutation p (svc_mutate p tmpl) ?b = Inr m" and mk: "key_of m = key_of ?b"
      and mr: "m_rv (meta m) = m_rv (meta ?b)" and mf: "m_finalizers (meta m) = m_finalizers (meta ?b)"
      and md: "m_deletion (meta m) = m_deletion (meta ?b)" and ma: "aobj_of m = child_upd p (SvcSpec s1) (aobj_of ?b)"
      by auto
    have "map_prod id view (createOrUpdate p (svc_orig p) (svc_mutate p tmpl) st)
        = (Inr (), (view st)(key_of (svc_orig p) \<mapsto> aobj_of m))"
      using createOrUpdate_view [OF h wf m _ mr mf md nd] mk kb by simp
    with \<open>svc_yaml tp = Inr tmpl\<close> Inr ma show ?thesis
      by (simp add: reconcileService_def upsert_spec_base [of "svc_orig p", simplified])
  qed
qed

lemma reconcileStatefulSet_view:
  assumes h: "healthy st" and wf: "store_wf st"
    and c: "case lookup st (sts_child_key p) of None \<Rightarrow> True | Some c \<Rightarrow> m_labels (meta c) \<noteq> None"
  shows "map_prod id view (reconcileStatefulSet tp p st) =
     (case sts_yaml tp of
        Inl e \<Rightarrow> (Inl e, view st)
      | Inr t \<Rightarrow>
          (case sts_desired p t of
             Inl e \<Rightarrow> (Inl e, view st)
           | Inr s2 \<Rightarrow> (Inr (), upsert_spec (sts_child_key p) (aobj_of (sts_orig p)) (child_upd p (StsSpec s2)) (view st))))"
proof (cases "sts_yaml tp")
  case (Inl e)
  then show ?thesis by (simp add: reconcileStatefulSet_def)
next
  case (Inr t)
  show ?thesis
  proof (cases "sts_desired p t")
    case (Inl e)
    with \<open>sts_yaml tp = Inr t\<close> show ?thesis by (simp add: reconcileStatefulSet_def)
  next
    case (Inr s2)
    let ?b = "base_of st (sts_orig p)"
    have "key_of ?b = sts_child_key p \<and> (\<exists>ls. m_labels (meta ?b) = Some ls)"
      by (rule base_of_child [OF wf _ _ c]) (simp_all add: sts_orig_def new_meta_def key_of_def sts_child_key_def)
    then obtain ls where kb: "key_of ?b = sts_child_key p" and lb: "m_labels (meta ?b) = Some ls" by blast
    have nd: "m_deletion (meta (sts_orig p)) = None" by (simp add: sts_orig_def new_meta_def)
    obtain m where m: "owned_mutation p (sts_mutate p s2) ?b = Inr m" and mk: "key_of m = key_of ?b"
      and mr: "m_rv (meta m) = m_rv (meta ?b)" and mf: "m_finalizers (meta m) = m_finalizers (meta ?b)"
      and md: "m_deletion (meta m) = m_deletion (meta ?b)" and ma: "aobj_of m = child_upd p (StsSpec s2) (aobj_of ?b)"
      using sts_child_view [OF kb lb] by blast
    have "map_prod id view (createOrUpdate p (sts_orig p) (sts_mutate p s2) st)
        = (Inr (), (view st)(key_of (sts_orig p) \<mapsto> aobj_of m))"
      using createOrUpdate_view [OF h wf m _ mr mf md nd] mk kb by simp
    with \<open>sts_yaml tp = Inr t\<close> Inr ma show ?thesis
      by (simp add: reconcileStatefulSet_def upsert_spec_base [of "sts_orig p", simplified])
  qed
qed

lemma deployTailscale_view:
  assumes h: "healthy st" and wf: "store_wf st" and c: "children_labelled st p"
  shows "map_prod id view (deployTailscale tp p st) = deploy_spec tp p (view st)"
proof -
  have c1: "case lookup st (svc_child_key p) of None \<Rightarrow> True | Some c \<Rightarrow> m_labels (meta c) \<noteq> None"
    and c2: "case lookup st (sts_child_key p) of None \<Rightarrow> True | Some c \<Rightarrow> m_labels (meta c) \<noteq> None"
    using c by (simp_all add: children_labelled_def)
  obtain r1 s1 where a: "reconcileService tp p st = (r1, s1)" by (cases "reconcileService tp p st")
  have v1: "map_prod id view (r1, s1) =
     (case svc_yaml tp of
        Inl e \<Rightarrow> (Inl e, view st)
      | Inr tmpl \<Rightarrow>
          (case desired_svc_spec p tmpl of
             Inl e \<Rightarrow> (Inl e, view st)
           | Inr s1 \<Rightarrow> (Inr (), upsert_spec (svc_child_key p) (aobj_of (svc_orig p)) (child_upd p (SvcSpec s1)) (view st))))"
    using reconcileService_view [OF h wf c1, of tp] a by simp
  have cf: "confined {svc_child_key p} st s1" using a by (rule reconcileService_confined)
  have h1: "healthy s1" using h confined_fault [OF cf] by simp
  have w1: "store_wf s1" using a wf
    by (auto simp: reconcileService_def split: sum.splits intro: store_wf_createOrUpdate)
  have c2': "case lookup s1 (sts_child_key p) of None \<Rightarrow> True | Some c \<Rightarrow> m_labels (meta c) \<noteq> None"
    using c2 confined_lookup [OF cf, of "sts_child_key p"] by simp
  show ?thesis
  proof (cases r1)
    case (Inl e)
    with a v1 show ?thesis
      by (auto simp: deployTailscale_def deploy_spec_def split: sum.splits)
  next
    case (Inr u)
    then obtain tmpl s1' where y: "svc_yaml tp = Inr tmpl" and d: "desired_svc_spec p tmpl = Inr s1'"
      and vs: "view s1 = upsert_spec (svc_child_key p) (aobj_of (svc_orig p)) (child_upd p (SvcSpec s1')) (view st)"
      using v1 by (auto split: sum.splits)
    have "map_prod id view (deployTailscale tp p st) = map_prod id view (reconcileStatefulSet tp p s1)"
      using a Inr by (simp add: deployTailscale_def)
    also have "\<dots> = deploy_spec tp p (view st)"
      using reconcileStatefulSet_view [OF h1 w1 c2', of tp] y d unfolding vs by (simp add: deploy_spec_def Let_def)
    finally show ?thesis .
  qed
qed

lemma handleDelete_view:
  assumes nf: "\<not> fault st (calls st)" and p: "lookup st (key_of p) = Some p"
  shows "map_prod id view (handleDelete p st) = (Inr (), teardown_spec p (view st))"
proof (cases "ContainsFinalizer p finalizer \<and> gm_get (m_annotations (meta p)) deviceIDAnnotation \<noteq> None")
  case False
  then show ?thesis by (auto simp: handleDelete_def teardown_spec_def split: option.splits)
next
  case True
  obtain ob' st' where u: "client_Update (RemoveFinalizer p finalizer) st = (Inr ob', st')"
    and v: "view st' = (if m_deletion (meta p) \<noteq> None \<and> m_finalizers (meta (RemoveFinalizer p finalizer)) = []
                        then (view st)(key_of p := None)
                        else (view st)(key_of p \<mapsto> (aobj_of (RemoveFinalizer p finalizer))\<lparr>a_deletion := m_deletion (meta p)\<rparr>))"
    using client_Update_view [of st "RemoveFinalizer p finalizer" p] nf p by auto
  have "(aobj_of (RemoveFinalizer p finalizer))\<lparr>a_deletion := m_deletion (meta p)\<rparr>
      = (aobj_of p)\<lparr>a_finalizers := filter (\<lambda>e. e \<noteq> finalizer) (m_finalizers (meta p))\<rparr>"
    by (simp add: aobj_of_def RemoveFinalizer_def)
  with True u v show ?thesis
    by (auto simp: handleDelete_def teardown_spec_def Let_def RemoveFinalizer_def aobj_of_def)
qed

lemma aobj_of_AddFinalizer: "aobj_of (AddFinalizer p finalizer) = add_finalizer_spec (aobj_of p)"
  by (simp add: AddFinalizer_def ContainsFinalizer_def add_finalizer_spec_def aobj_of_def)

lemma deploy_spec_cong:
  assumes n: "m_name (meta a) = m_name (meta b)" and u: "m_uid (meta a) = m_uid (meta b)"
    and s: "spec a = spec b" and ns: "m_namespace (meta a) = m_namespace (meta b)"
  shows "deploy_spec tp a = deploy_spec tp b"
proof -
  have "desired_svc_spec a = desired_svc_spec b"
    using n by (simp add: desired_svc_spec_def fun_eq_iff)
  moreover have "sts_desired a = sts_desired b"
  proof
    fix t
    have "svc_clusterIP a = svc_clusterIP b" using s by (simp add: svc_clusterIP_def)
    moreover have "hostName a = hostName b" using n u by (simp add: hostName_def)
    ultimately show "sts_desired a t = sts_desired b t" using n
      by (simp add: sts_desired_def Let_def cong: list.case_cong sum.case_cong option.case_cong prod.case_cong)
  qed
  moreover have "svc_child_key a = svc_child_key b" "sts_child_key a = sts_child_key b"
    "svc_orig a = svc_orig b" "sts_orig a = sts_orig b"
    using n ns by (simp_all add: svc_child_key_def sts_child_key_def svc_orig_def sts_orig_def childName_def)
  moreover have "child_upd a = child_upd b"
    using n u s by (simp add: child_upd_def owner_ref_of_def fun_eq_iff)
  ultimately have "deploy_spec tp a A = deploy_spec tp b A" for A by (simp only: deploy_spec_def)
  then show ?thesis by (rule ext)
qed

text \<open>The enabling branch: the finalizer, then \<open>deployTailscale\<close>.\<close>

lemma Reconcile_enable_view:
  assumes h: "healthy st" and wf: "store_wf st" and p: "lookup st (KService, req) = Some p"
    and c: "children_labelled st p" and en: "\<not> disabled p"
  shows "map_prod id view (Reconcile tp req st) = deploy_spec tp p ((view st)(key_of p \<mapsto> add_finalizer_spec (aobj_of p)))"
proof -
  have req: "req = (m_namespace (meta p), m_name (meta p))" and kp: "key_of p = (KService, req)"
    using parent_key [OF wf p] by auto
  let ?s1 = "tick (CGet (KService, req)) True st"
  have g: "client_Get (KService, req) st = (Inr p, ?s1)" using h p by (simp add: client_Get_found)
  have nd: "m_deletion (meta p) = None" using en by (simp add: disabled_def)
  obtain p' st2 where u: "client_Update (AddFinalizer p finalizer) ?s1 = (Inr p', st2)"
    and w2: "store_wf st2" and h2: "healthy st2"
    and same: "m_name (meta p') = m_name (meta p)" "m_uid (meta p') = m_uid (meta p)"
      "spec p' = spec p" "m_namespace (meta p') = m_namespace (meta p)"
    and f2: "\<forall>k'. k' \<noteq> (KService, req) \<longrightarrow> lookup st2 k' = lookup ?s1 k'"
    using AddFinalizer_update_ok [of ?s1 "(KService, req)" p] h wf p kp nd by auto
  obtain ob' st2' where u': "client_Update (AddFinalizer p finalizer) ?s1 = (Inr ob', st2')"
    and v2: "view st2' = (view ?s1)(key_of p \<mapsto> (aobj_of (AddFinalizer p finalizer))\<lparr>a_deletion := None\<rparr>)"
    using client_Update_view [of ?s1 "AddFinalizer p finalizer" p] h p kp nd by auto
  have v: "view st2 = (view st)(key_of p \<mapsto> add_finalizer_spec (aobj_of p))"
    using u u' v2 nd by (simp add: aobj_of_AddFinalizer [symmetric])
  have ck: "svc_child_key p' = svc_child_key p" "sts_child_key p' = sts_child_key p"
    using same by (simp_all add: svc_child_key_def sts_child_key_def childName_def)
  have "lookup st2 (svc_child_key p) = lookup st (svc_child_key p)"
    "lookup st2 (sts_child_key p) = lookup st (sts_child_key p)"
    using f2 [rule_format, of "svc_child_key p"] f2 [rule_format, of "sts_child_key p"] req by simp_all
  then have c2: "children_labelled st2 p'" using c ck by (simp add: children_labelled_def)
  have "Reconcile tp req st = deployTailscale tp p' st2" using g en u by (simp add: Reconcile_def)
  then have "map_prod id view (Reconcile tp req st) = deploy_spec tp p' (view st2)"
    using deployTailscale_view [OF h2 w2 c2] by simp
  also have "\<dots> = deploy_spec tp p (view st2)" using deploy_spec_cong [OF same] by simp
  finally show ?thesis using v by simp
qed

section \<open>Refinement\<close>

text \<open>Both branches of a pass on the abstract state.\<close>

lemma Reconcile_view:
  assumes h: "healthy st" and wf: "store_wf st" and p: "lookup st (KService, req) = Some p"
    and c: "children_labelled st p"
  shows "map_prod id view (Reconcile tp req st) = reconcile_spec tp p (view st)"
proof (cases "disabled p")
  case True
  have kp: "key_of p = (KService, req)" using parent_key [OF wf p] by simp
  have "Reconcile tp req st = handleDelete p (tick (CGet (KService, req)) True st)"
    using h p True by (simp add: Reconcile_disabled)
  moreover have "map_prod id view (handleDelete p (tick (CGet (KService, req)) True st))
      = (Inr (), teardown_spec p (view st))"
    using handleDelete_view [of "tick (CGet (KService, req)) True st" p] h p kp by simp
  ultimately show ?thesis using True by (simp add: reconcile_spec_def)
next
  case False
  with Reconcile_enable_view [OF h wf p c False] show ?thesis by (simp add: reconcile_spec_def)
qed

text \<open>
  C24. Refinement: on a healthy store whose parent exists and whose existing
  children have label maps, a pass of \<open>Reconcile\<close> returns the result of the
  abstract pass, and the abstraction of the store it leaves is the abstract
  pass applied to the abstraction of the store it started from: the teardown
  on a disabled service; otherwise the finalizer, then the routing service and
  the statefulset written through create-or-update, up to the first error.
  Nothing else of what the user can see changes.
\<close>

theorem Reconcile_refines:
  assumes h: "healthy st" and wf: "store_wf st" and p: "lookup st (KService, req) = Some p"
    and c: "children_labelled st p"
  shows "map_prod id view (Reconcile tp req st) = reconcile_spec tp p (view st)"
  using Reconcile_view [OF h wf p c] .

end
