(* ===== verification/Queue.thy ===== *)
theory Queue
  imports Refinement Watch Convergence Failures Cluster
begin

text \<open>
  The controller's work queue around \<open>Reconcile\<close>, as controller-runtime
  runs it for the controller that \<open>New\<close> registers: take the first request,
  run a pass, then add the requests that the watches of \<^theory_text>\<open>Watch\<close> derive
  from every object the pass created, changed or deleted, and the request itself
  again when the pass returned an error (rate-limited requeue). The queue
  holds each request once (adding a queued request is a no-op), and the
  server sends no event for an update that wrote nothing. \<open>process n\<close> runs at
  most \<open>n\<close> passes and is \<open>None\<close> when the queue has not drained by then, so
  that the loop draining is a statement that enough fuel gives \<open>Some\<close>.
\<close>

section \<open>Definitions\<close>

text \<open>The keys whose object a step from \<open>st\<close> to \<open>st'\<close> created, changed or deleted.\<close>

definition changed_keys :: "store \<Rightarrow> store \<Rightarrow> objkey list" where
  "changed_keys st st' =
     filter (\<lambda>k. lookup st' k \<noteq> lookup st k) (remdups (map fst (objs st) @ map fst (objs st')))"

text \<open>The requests the watch events of these changes enqueue (old and new object).\<close>

definition event_requests :: "store \<Rightarrow> store \<Rightarrow> (string \<times> string) list" where
  "event_requests st st' = concat (map (\<lambda>k.
       (case lookup st k of None \<Rightarrow> [] | Some ob \<Rightarrow> requests ob)
     @ (case lookup st' k of None \<Rightarrow> [] | Some ob \<Rightarrow> requests ob)) (changed_keys st st'))"

definition enq :: "'a \<Rightarrow> 'a list \<Rightarrow> 'a list" where
  "enq x q = (if x \<in> set q then q else q @ [x])"

fun process :: "nat \<Rightarrow> templates \<Rightarrow> (string \<times> string) list \<Rightarrow> store \<Rightarrow> store option" where
  "process n tp [] st = Some st"
| "process 0 tp (r # q) st = None"
| "process (Suc n) tp (r # q) st =
     (case Reconcile tp r st of
        (res, st') \<Rightarrow> process n tp (fold enq (event_requests st st' @ (if isl res then [r] else [])) q) st')"

section \<open>Lemmas: the queue\<close>

lemma set_fold_enq: "set (fold enq xs q) = set q \<union> set xs"
  by (induction xs arbitrary: q) (auto simp: enq_def)

lemma distinct_fold_enq: "distinct q \<Longrightarrow> distinct (fold enq xs q)"
  by (induction xs arbitrary: q) (auto simp: enq_def)

lemma length_fold_enq:
  assumes "set (fold enq xs []) \<subseteq> A" and "finite A" shows "length (fold enq xs []) \<le> card A"
proof -
  have "distinct (fold enq xs [])" by (rule distinct_fold_enq) simp
  then have "length (fold enq xs []) = card (set (fold enq xs []))" by (simp add: distinct_card)
  also have "\<dots> \<le> card A" using assms by (rule card_mono [rotated])
  finally show ?thesis .
qed

lemma fold_enq_same: "set xs \<subseteq> {x} \<Longrightarrow> fold enq xs [x] = [x]"
  by (induction xs) (auto simp: enq_def)

lemma fold_enq_requeue: "set xs \<subseteq> {x} \<Longrightarrow> fold enq (xs @ [x]) [] = [x]"
  by (cases xs) (auto simp: enq_def fold_enq_same)

lemma event_requests_same: "(\<forall>k. lookup st' k = lookup st k) \<Longrightarrow> event_requests st st' = []"
  by (simp add: event_requests_def changed_keys_def)

lemma event_requests_subset:
  assumes fr: "\<forall>k. k \<notin> K \<longrightarrow> lookup st' k = lookup st k"
  shows "set (event_requests st st') \<subseteq> (\<Union>k\<in>K.
     set (case lookup st k of None \<Rightarrow> [] | Some ob \<Rightarrow> requests ob)
     \<union> set (case lookup st' k of None \<Rightarrow> [] | Some ob \<Rightarrow> requests ob))"
  using fr by (auto simp: event_requests_def changed_keys_def)

text \<open>
  A queue of requests each of whose passes succeeds and changes no object, on
  every store in a set closed under those passes, drains in as many passes.
\<close>

lemma process_quiet:
  assumes q: "\<forall>r\<in>set q. \<forall>s. Q s \<longrightarrow> fst (Reconcile tp r s) = Inr ()
       \<and> (\<forall>k. lookup (snd (Reconcile tp r s)) k = lookup s k) \<and> Q (snd (Reconcile tp r s))"
    and s: "Q st" and n: "length q \<le> n"
  shows "\<exists>st'. process n tp q st = Some st' \<and> Q st'"
  using q s n
proof (induction q arbitrary: st n)
  case Nil
  then show ?case by simp
next
  case (Cons r q)
  then obtain m where m: "n = Suc m" and lm: "length q \<le> m" by (cases n) auto
  obtain st' where r: "Reconcile tp r st = (Inr (), st')" and l: "\<forall>k. lookup st' k = lookup st k"
    and s': "Q st'"
    using Cons.prems(1,2) by (cases "Reconcile tp r st") auto
  have "process n tp (r # q) st = process m tp q st'"
    using m r event_requests_same [OF l] by simp
  with Cons.IH [OF _ s' lm] Cons.prems(1) show ?case by simp
qed

section \<open>Lemmas: the requests of the objects a pass writes\<close>

lemma requests_no_controller:
  "controller_of ob = None \<Longrightarrow>
   requests ob = (if kind_of (spec ob) = KService then [(m_namespace (meta ob), m_name (meta ob))] else [])"
  by (cases "kind_of (spec ob)") (simp_all add: requests_def New_def enqueue_owner_def)

lemma requests_parent:
  "kind_of (spec ob) = KService \<Longrightarrow> enqueue_owner ob = [] \<Longrightarrow>
   requests ob = [(m_namespace (meta ob), m_name (meta ob))]"
  by (simp add: requests_def New_def)

lemma controller_of_owner_ref: "m_owners (meta ob) = [owner_ref_of p] \<Longrightarrow> controller_of ob = None"
  by (simp add: controller_of_def owner_ref_of_def)

lemma provisioned_lookup: "lookup s = lookup s' \<Longrightarrow> provisioned tp p s = provisioned tp p s'"
  by (simp add: provisioned_def cong: sum.case_cong prod.case_cong)

section \<open>Lemmas: passes that change nothing\<close>

text \<open>A provisioned parent that holds the finalizer: the pass writes nothing.\<close>

lemma Reconcile_parent_quiet:
  assumes h: "healthy s" and wf: "store_wf s" and p: "lookup s (KService, req) = Some p"
    and en: "\<not> disabled p" and f: "ContainsFinalizer p finalizer" and pr: "provisioned tp p s"
  shows "\<exists>s'. Reconcile tp req s = (Inr (), s') \<and> lookup s' = lookup s \<and> healthy s' \<and> store_wf s'"
proof -
  let ?k = "(KService, req)"
  let ?s2 = "tick (CUpdate ?k) True (tick (CGet ?k) True s)"
  have kp: "key_of p = ?k" using parent_key [OF wf p] by simp
  have u: "client_Update (AddFinalizer p finalizer) (tick (CGet ?k) True s) = (Inr p, ?s2)"
    using AddFinalizer_noop_update [of "tick (CGet ?k) True s" p] h p kp f by simp
  have "provisioned tp p ?s2"
    using pr by (simp add: provisioned_def cong: sum.case_cong prod.case_cong)
  then have "deployTailscale tp p ?s2 =
      (Inr (), tick (CGet (sts_child_key p)) True (tick (CGet (svc_child_key p)) True ?s2))"
    using h wf by (simp add: deployTailscale_unchanged)
  with u h wf p en show ?thesis by (simp add: Reconcile_def client_Get_found fun_eq_iff)
qed

text \<open>A disabled service without the finalizer (a child service): the pass only reads it.\<close>

lemma Reconcile_child_quiet:
  assumes h: "healthy s" and c: "lookup s (KService, creq) = Some c" and dis: "disabled c"
    and nf: "\<not> ContainsFinalizer c finalizer"
  shows "Reconcile tp creq s = (Inr (), tick (CGet (KService, creq)) True s)"
  using h c dis nf by (simp add: Reconcile_disabled handleDelete_def)

section \<open>Lemmas: the first pass over a fresh parent\<close>

lemma fresh_children:
  assumes h: "healthy st" and wf: "store_wf st" and p: "lookup st (KService, req) = Some p"
    and en: "\<not> disabled p" and d: "desired tp p = Inr (s1, s2)"
    and f1: "lookup st (svc_child_key p) = None" and f2: "lookup st (sts_child_key p) = None"
  shows "\<exists>c1 c2. lookup (snd (Reconcile tp req st)) (svc_child_key p) = Some c1
     \<and> lookup (snd (Reconcile tp req st)) (sts_child_key p) = Some c2
     \<and> m_owners (meta c1) = [owner_ref_of p] \<and> m_owners (meta c2) = [owner_ref_of p]
     \<and> gm_get (m_annotations (meta c1)) = Map.empty \<and> m_finalizers (meta c1) = []"
proof -
  have c: "children_labelled st p" using f1 f2 by (simp add: children_labelled_def)
  have kp: "key_of p = (KService, req)" using parent_key [OF wf p] by simp
  obtain tmpl t where y1: "svc_yaml tp = Inr tmpl" and d1: "desired_svc_spec p tmpl = Inr s1"
    and y2: "sts_yaml tp = Inr t" and d2: "sts_desired p t = Inr s2"
    using d by (rule desired_Inr)
  have v: "map_prod id view (Reconcile tp req st)
      = deploy_spec tp p ((view st)(key_of p \<mapsto> add_finalizer_spec (aobj_of p)))"
    by (rule Reconcile_enable_view [OF h wf p c en])
  have vf: "view st (svc_child_key p) = None" "view st (sts_child_key p) = None"
    using f1 f2 by (simp_all add: view_def)
  have ne: "key_of p \<noteq> svc_child_key p" "key_of p \<noteq> sts_child_key p"
    using kp parent_key [OF wf p] by auto
  have "view (snd (Reconcile tp req st)) (svc_child_key p) = Some (child_upd p (SvcSpec s1) (aobj_of (svc_orig p)))"
    "view (snd (Reconcile tp req st)) (sts_child_key p) = Some (child_upd p (StsSpec s2) (aobj_of (sts_orig p)))"
    using arg_cong [OF v, of snd] y1 d1 y2 d2 vf ne by (simp_all add: deploy_spec_def upsert_spec_def Let_def)
  then obtain c1 c2 where l1: "lookup (snd (Reconcile tp req st)) (svc_child_key p) = Some c1"
    and e1: "aobj_of c1 = child_upd p (SvcSpec s1) (aobj_of (svc_orig p))"
    and l2: "lookup (snd (Reconcile tp req st)) (sts_child_key p) = Some c2"
    and e2: "aobj_of c2 = child_upd p (StsSpec s2) (aobj_of (sts_orig p))"
    by (blast dest: view_Some)
  have "a_owners (aobj_of c1) = a_owners (child_upd p (SvcSpec s1) (aobj_of (svc_orig p)))"
    "a_owners (aobj_of c2) = a_owners (child_upd p (StsSpec s2) (aobj_of (sts_orig p)))"
    "a_annotations (aobj_of c1) = a_annotations (child_upd p (SvcSpec s1) (aobj_of (svc_orig p)))"
    "a_finalizers (aobj_of c1) = a_finalizers (child_upd p (SvcSpec s1) (aobj_of (svc_orig p)))"
    using e1 e2 by simp_all
  then have "m_owners (meta c1) = [owner_ref_of p]" "m_owners (meta c2) = [owner_ref_of p]"
    "gm_get (m_annotations (meta c1)) = Map.empty" "m_finalizers (meta c1) = []"
    by (simp_all add: aobj_of_def child_upd_def svc_orig_def sts_orig_def new_meta_def fun_eq_iff)
  with l1 l2 show ?thesis by blast
qed

text \<open>The requests the first pass over a fresh parent enqueues: the parent's and the routing service's.\<close>

lemma fresh_pass_requests:
  assumes h: "healthy st" and wf: "store_wf st" and p: "lookup st (KService, req) = Some p"
    and en: "\<not> disabled p" and d: "desired tp p = Inr (s1, s2)"
    and f1: "lookup st (svc_child_key p) = None" and f2: "lookup st (sts_child_key p) = None"
    and own: "enqueue_owner p = []"
    and r: "Reconcile tp req st = (Inr (), st1)" and l1: "lookup st1 (KService, req) = Some p'"
    and same: "spec p' = spec p" "m_namespace (meta p') = m_namespace (meta p)"
      "m_name (meta p') = m_name (meta p)" "m_owners (meta p') = m_owners (meta p)"
    and fr: "\<forall>k. k \<noteq> (KService, req) \<and> k \<noteq> svc_child_key p \<and> k \<noteq> sts_child_key p \<longrightarrow> lookup st1 k = lookup st k"
    and w1: "store_wf st1"
  shows "set (event_requests st st1) \<subseteq> {req, (m_namespace (meta p), childName p)}"
proof -
  have req: "req = (m_namespace (meta p), m_name (meta p))" and kp: "key_of p = (KService, req)"
    using parent_key [OF wf p] by auto
  obtain c1 c2 where c1: "lookup st1 (svc_child_key p) = Some c1" and c2: "lookup st1 (sts_child_key p) = Some c2"
    and o1: "m_owners (meta c1) = [owner_ref_of p]" and o2: "m_owners (meta c2) = [owner_ref_of p]"
    using fresh_children [OF h wf p en d f1 f2] r by auto
  have k1: "key_of c1 = svc_child_key p" and k2: "key_of c2 = sts_child_key p"
    using store_wf_lookup [OF w1 c1] store_wf_lookup [OF w1 c2] by (simp_all add: obj_wf_def)
  have "requests c1 = [(m_namespace (meta p), childName p)]"
    using requests_no_controller [OF controller_of_owner_ref [OF o1]] k1
    by (simp add: key_of_def svc_child_key_def)
  moreover have "requests c2 = []"
    using requests_no_controller [OF controller_of_owner_ref [OF o2]] k2
    by (simp add: key_of_def sts_child_key_def)
  moreover have "requests p = [req]" using requests_parent [OF _ own] kp req by (simp add: key_of_def)
  moreover have "enqueue_owner p' = enqueue_owner p"
    using same by (simp add: enqueue_owner_def controller_of_def cong: option.case_cong if_cong)
  then have "enqueue_owner p' = []" using own by simp
  then have "requests p' = [req]" using requests_parent [of p'] kp req same by (simp add: key_of_def)
  moreover have "\<forall>k. k \<notin> {(KService, req), svc_child_key p, sts_child_key p} \<longrightarrow> lookup st1 k = lookup st k"
    using fr by simp
  ultimately show ?thesis
    using event_requests_subset [of "{(KService, req), svc_child_key p, sts_child_key p}" st1 st] p l1 f1 f2 c1 c2
    by auto
qed

text \<open>After that pass, both requests it enqueued are served without a write.\<close>

lemma served_quiet:
  assumes l1: "lookup st1 (KService, req) = Some p'" and en: "\<not> disabled p'"
    and cf: "ContainsFinalizer p' finalizer" and pr: "provisioned tp p' st1"
    and c1: "lookup st1 (KService, creq) = Some c1" and dis: "disabled c1"
    and nf: "\<not> ContainsFinalizer c1 finalizer"
  shows "\<forall>r\<in>{req, creq}. \<forall>s. healthy s \<and> store_wf s \<and> lookup s = lookup st1 \<longrightarrow>
     fst (Reconcile tp r s) = Inr () \<and> (\<forall>k. lookup (snd (Reconcile tp r s)) k = lookup s k)
     \<and> healthy (snd (Reconcile tp r s)) \<and> store_wf (snd (Reconcile tp r s))
     \<and> lookup (snd (Reconcile tp r s)) = lookup st1"
proof (intro ballI allI impI)
  fix r s assume r: "r \<in> {req, creq}" and Q: "healthy s \<and> store_wf s \<and> lookup s = lookup st1"
  show "fst (Reconcile tp r s) = Inr () \<and> (\<forall>k. lookup (snd (Reconcile tp r s)) k = lookup s k)
     \<and> healthy (snd (Reconcile tp r s)) \<and> store_wf (snd (Reconcile tp r s))
     \<and> lookup (snd (Reconcile tp r s)) = lookup st1"
  proof (cases "r = req")
    case True
    have "provisioned tp p' s" using pr provisioned_lookup [of s st1] Q by simp
    with True show ?thesis using Reconcile_parent_quiet [of s req p' tp] Q l1 en cf by auto
  next
    case False
    with r have "r = creq" by simp
    then show ?thesis using Reconcile_child_quiet [of s creq c1 tp] Q c1 dis nf by (simp add: fun_eq_iff)
  qed
qed

section \<open>Termination of the reconcile loop\<close>

text \<open>
  C25. Termination: on a healthy store, a request for an enabled service
  whose templates build, whose children do not exist yet and that is not
  itself owned through a controller reference drains the work queue within
  three passes: the first provisions the children, and the requests its
  watch events enqueue (the parent, whose finalizer was written, and the new
  routing service) are served by passes that write nothing. The queue ends
  empty with the parent provisioned and holding the finalizer.
\<close>

theorem process_drains:
  assumes h: "healthy st" and wf: "store_wf st" and p: "lookup st (KService, req) = Some p"
    and en: "\<not> disabled p" and d: "desired tp p = Inr (s1, s2)"
    and f1: "lookup st (svc_child_key p) = None" and f2: "lookup st (sts_child_key p) = None"
    and own: "enqueue_owner p = []"
  shows "\<exists>st'. process 3 tp [req] st = Some st' \<and> provisioned tp p st'
     \<and> (\<exists>p'. lookup st' (KService, req) = Some p' \<and> ContainsFinalizer p' finalizer)"
proof -
  have c: "children_labelled st p" using f1 f2 by (simp add: children_labelled_def)
  obtain p' st1 where r: "Reconcile tp req st = (Inr (), st1)" and w1: "store_wf st1" and h1: "healthy st1"
    and pr1: "provisioned tp p st1" and l1: "lookup st1 (KService, req) = Some p'"
    and cf: "ContainsFinalizer p' finalizer"
    and same: "m_name (meta p') = m_name (meta p)" "m_uid (meta p') = m_uid (meta p)" "spec p' = spec p"
      "m_namespace (meta p') = m_namespace (meta p)" "m_annotations (meta p') = m_annotations (meta p)"
      "m_deletion (meta p') = m_deletion (meta p)" "m_owners (meta p') = m_owners (meta p)"
    and fr: "\<forall>k. k \<noteq> (KService, req) \<and> k \<noteq> svc_child_key p \<and> k \<noteq> sts_child_key p \<longrightarrow> lookup st1 k = lookup st k"
    using Reconcile_enable_ok [OF h wf p en d c] by blast
  let ?creq = "(m_namespace (meta p), childName p)"
  let ?q = "fold enq (event_requests st st1) []"
  have ev: "set ?q \<subseteq> {req, ?creq}"
    using fresh_pass_requests [OF h wf p en d f1 f2 own r l1 same(3,4,1,7) fr w1] by (simp add: set_fold_enq)
  have "length ?q \<le> card {req, ?creq}" using ev by (intro length_fold_enq) (simp_all add: set_fold_enq)
  then have len: "length ?q \<le> 2" using card_insert_le_m1 [of 2 "{?creq}" req] by simp
  have run: "process 3 tp [req] st = process 2 tp ?q st1"
    using r by (simp add: numeral_3_eq_3 numeral_2_eq_2)
  obtain c1 where c1: "lookup st1 (svc_child_key p) = Some c1"
    and a1: "gm_get (m_annotations (meta c1)) = Map.empty" and n1: "m_finalizers (meta c1) = []"
    using fresh_children [OF h wf p en d f1 f2] r by auto
  have dis1: "disabled c1" using a1 by (simp add: disabled_def)
  have nf1: "\<not> ContainsFinalizer c1 finalizer" using n1 by (simp add: ContainsFinalizer_def)
  have en': "\<not> disabled p'" using en same by (simp add: disabled_def)
  have pr1': "provisioned tp p' st1" using pr1 provisioned_cong [OF same(1-4)] by simp
  let ?Q = "\<lambda>s. healthy s \<and> store_wf s \<and> lookup s = lookup st1"
  have c1': "lookup st1 (KService, ?creq) = Some c1" using c1 by (simp add: svc_child_key_def)
  have "\<forall>r\<in>{req, ?creq}. \<forall>s. ?Q s \<longrightarrow> fst (Reconcile tp r s) = Inr ()
       \<and> (\<forall>k. lookup (snd (Reconcile tp r s)) k = lookup s k) \<and> ?Q (snd (Reconcile tp r s))"
    by (rule served_quiet [OF l1 en' cf pr1' c1' dis1 nf1])
  with ev have quiet: "\<forall>r\<in>set ?q. \<forall>s. ?Q s \<longrightarrow> fst (Reconcile tp r s) = Inr ()
       \<and> (\<forall>k. lookup (snd (Reconcile tp r s)) k = lookup s k) \<and> ?Q (snd (Reconcile tp r s))"
    by blast
  obtain st' where "process 2 tp ?q st1 = Some st'" and "?Q st'"
    using process_quiet [OF quiet _ len, of st1] h1 w1 by blast
  moreover have "provisioned tp p st'" using pr1 provisioned_lookup [of st' st1] \<open>?Q st'\<close> by simp
  ultimately show ?thesis using run l1 cf by auto
qed

section \<open>A template error is retried forever\<close>

text \<open>One pass with an unreadable \<open>svc.yaml\<close>: the error, and events for the parent only.\<close>

lemma template_error_pass:
  assumes h: "healthy st" and wf: "store_wf st" and p: "lookup st (KService, req) = Some p"
    and en: "\<not> disabled p" and y: "svc_yaml tp = Inl e" and own: "enqueue_owner p = []"
  shows "\<exists>p' s'. Reconcile tp req st = (Inl e, s') \<and> healthy s' \<and> store_wf s'
     \<and> lookup s' (KService, req) = Some p' \<and> \<not> disabled p' \<and> enqueue_owner p' = []
     \<and> set (event_requests st s') \<subseteq> {req}"
proof -
  obtain p' st2 where r: "Reconcile tp req st = deployTailscale tp p' st2"
    and w2: "store_wf st2" and h2: "healthy st2"
    and l: "lookup st2 (KService, req) = Some p'"
    and same: "m_name (meta p') = m_name (meta p)" "m_uid (meta p') = m_uid (meta p)" "spec p' = spec p"
      "m_namespace (meta p') = m_namespace (meta p)"
      "m_annotations (meta p') = m_annotations (meta p)" "m_deletion (meta p') = m_deletion (meta p)"
      "m_owners (meta p') = m_owners (meta p)"
    and fr: "\<forall>k. k \<noteq> (KService, req) \<longrightarrow> lookup st2 k = lookup st k"
    by (rule enable_prefix [OF h wf p en]) blast
  have req: "req = (m_namespace (meta p), m_name (meta p))" and kp: "key_of p = (KService, req)"
    using parent_key [OF wf p] by auto
  have run: "Reconcile tp req st = (Inl e, st2)" using r y by (simp add: deployTailscale_def reconcileService_def)
  have en': "\<not> disabled p'" using en same by (simp add: disabled_def)
  have "enqueue_owner p' = enqueue_owner p"
    using same by (simp add: enqueue_owner_def controller_of_def cong: option.case_cong if_cong)
  then have own': "enqueue_owner p' = []" using own by simp
  have "requests p = [req]" using requests_parent [OF _ own] kp req by (simp add: key_of_def)
  moreover have "requests p' = [req]" using requests_parent [OF _ own'] kp req same by (simp add: key_of_def)
  moreover have "\<forall>k. k \<notin> {(KService, req)} \<longrightarrow> lookup st2 k = lookup st k" using fr by simp
  ultimately have "set (event_requests st st2) \<subseteq> {req}"
    using event_requests_subset [of "{(KService, req)}" st2 st] p l by auto
  with run h2 w2 l en' own' show ?thesis by blast
qed

text \<open>
  C29. A template error is retried forever: on a healthy store, the work-queue
  loop started with the request of an enabled service (not owned through a
  controller reference) whose \<open>svc.yaml\<close> cannot be read or decoded never
  drains, whatever the number of passes: each pass fails with the same error
  and requeues the request, so the queue is the same single request again.
\<close>

theorem template_error_requeued:
  assumes h: "healthy st" and wf: "store_wf st" and p: "lookup st (KService, req) = Some p"
    and en: "\<not> disabled p" and y: "svc_yaml tp = Inl e" and own: "enqueue_owner p = []"
  shows "process n tp [req] st = None"
  using h wf p en own
proof (induction n arbitrary: st p)
  case 0
  then show ?case by simp
next
  case (Suc n)
  obtain p' s' where r: "Reconcile tp req st = (Inl e, s')" and s': "healthy s'" "store_wf s'"
    "lookup s' (KService, req) = Some p'" "\<not> disabled p'" "enqueue_owner p' = []"
    and ev: "set (event_requests st s') \<subseteq> {req}"
    using template_error_pass [OF Suc.prems(1-4) y Suc.prems(5)] by blast
  have "process (Suc n) tp [req] st = process n tp [req] s'"
    using r fold_enq_requeue [OF ev] by simp
  with Suc.IH [OF s'] show ?case by simp
qed

text \<open>A pass for a request whose parent is not stored fails at the Get and writes nothing.\<close>

lemma Reconcile_missing:
  assumes m: "lookup st (KService, req) = None"
  shows "\<exists>e. Reconcile tp req st = (Inl e, tick (CGet (KService, req)) False st)"
  using m by (cases "fault st (calls st)") (simp_all add: Reconcile_def client_Get_def)

text \<open>
  C37. A request for a service that is gone is retried forever: when the
  parent is not in the store (deleted after the request was queued, or never
  there), the work-queue loop never drains, whatever the number of passes and
  the faults: every pass fails at the Get, writes nothing and requeues the
  request, instead of treating NotFound as nothing to do (spec 4.1).
\<close>

theorem missing_parent_requeued:
  assumes m: "lookup st (KService, req) = None"
  shows "process n tp [req] st = None"
  using m
proof (induction n arbitrary: st)
  case 0
  then show ?case by simp
next
  case (Suc n)
  let ?s = "tick (CGet (KService, req)) False st"
  obtain e where r: "Reconcile tp req st = (Inl e, ?s)" using Reconcile_missing [OF Suc.prems] by blast
  have "event_requests st ?s = []" by (rule event_requests_same) simp
  with r have "process (Suc n) tp [req] st = process n tp [req] ?s" by (simp add: enq_def)
  with Suc.IH [of ?s] Suc.prems show ?case by simp
qed

end
