(* ===== verification/Collector.thy ===== *)
theory Collector
  imports Passes
begin

text \<open>
  The garbage collector of the API server, which the operator relies on to
  delete the children: it never deletes them itself, it only tags them with an
  owner reference to the parent (\<open>SetOwnerReference\<close> in \<open>createOrUpdate\<close>).
  An owner reference resolves when the object it names by kind, namespace and
  name exists with the UID it records. A sweep deletes every object that has
  owner references none of which resolves; one that still holds finalizers is
  only marked for deletion. The lemmas show that the reference the operator
  writes resolves to the parent (a round trip through the scheme's kind names),
  that a sweep keeps the children of a live provisioned parent, and that a
  teardown that releases the parent lets the next sweep delete the children.
\<close>

section \<open>Definitions\<close>

text \<open>The kind an owner reference names, looked up in the scheme by API version and kind.\<close>

definition ref_kind :: "owner_ref \<Rightarrow> kind option" where
  "ref_kind r = find (\<lambda>k. api_version k = or_apiVersion r \<and> kind_name k = or_kind r) [KService, KStatefulSet]"

definition resolve_owner :: "store \<Rightarrow> string \<Rightarrow> owner_ref \<Rightarrow> kobj option" where
  "resolve_owner st ns r = (case ref_kind r of
       None \<Rightarrow> None
     | Some k \<Rightarrow> (case lookup st (k, ns, or_name r) of
                   None \<Rightarrow> None
                 | Some ob \<Rightarrow> if m_uid (meta ob) = or_uid r then Some ob else None))"

definition collectable :: "store \<Rightarrow> kobj \<Rightarrow> bool" where
  "collectable st ob \<longleftrightarrow> m_owners (meta ob) \<noteq> []
     \<and> list_all (\<lambda>r. resolve_owner st (m_namespace (meta ob)) r = None) (m_owners (meta ob))"

text \<open>What a sweep does to one object: keep it, delete it, or mark it for deletion.\<close>

definition gc_obj :: "store \<Rightarrow> kobj \<Rightarrow> kobj option" where
  "gc_obj st ob =
     (if \<not> collectable st ob then Some ob
      else if m_finalizers (meta ob) = [] then None
      else Some (ob\<lparr>meta := (meta ob)\<lparr>m_deletion := Some (case m_deletion (meta ob) of
                                                        None \<Rightarrow> rv_next st | Some t \<Rightarrow> t)\<rparr>\<rparr>))"

definition gc_sweep :: "store \<Rightarrow> store" where
  "gc_sweep st = st\<lparr>objs := concat (map (\<lambda>(k, ob). case gc_obj st ob of None \<Rightarrow> [] | Some ob' \<Rightarrow> [(k, ob')])
                                    (objs st))\<rparr>"

section \<open>Lemmas\<close>

lemma map_of_concat_gc:
  "distinct (map fst xs) \<Longrightarrow>
   map_of (concat (map (\<lambda>(k, ob). case f ob of None \<Rightarrow> [] | Some ob' \<Rightarrow> [(k, ob')]) xs)) k
     = Option.bind (map_of xs k) f"
proof (induction xs)
  case Nil
  then show ?case by simp
next
  case (Cons x xs)
  obtain k0 ob where x: "x = (k0, ob)" by (cases x)
  have "k0 \<notin> fst ` set xs" using Cons.prems x by simp
  then have "map_of xs k0 = None" by (simp add: map_of_eq_None_iff)
  with Cons x show ?case by (cases "f ob") auto
qed

lemma lookup_gc_sweep: "store_wf st \<Longrightarrow> lookup (gc_sweep st) k = Option.bind (lookup st k) (gc_obj st)"
  by (simp add: gc_sweep_def lookup_def store_wf_def map_of_concat_gc)

lemma ref_kind_owner_ref_of [simp]: "ref_kind (owner_ref_of p) = Some (kind_of (spec p))"
  by (cases "kind_of (spec p)") (simp_all add: ref_kind_def owner_ref_of_def)

lemma owner_ref_of_fields [simp]:
  "or_name (owner_ref_of p) = m_name (meta p)" "or_uid (owner_ref_of p) = m_uid (meta p)"
  by (simp_all add: owner_ref_of_def)

lemma resolve_owner_gone:
  "lookup st (kind_of (spec p), ns, m_name (meta p)) = None \<Longrightarrow> resolve_owner st ns (owner_ref_of p) = None"
  by (simp add: resolve_owner_def)

lemma child_ok_owner: "child_ok p ds (Some c) \<Longrightarrow> owner_ref_of p \<in> set (m_owners (meta c))"
  using upsertOwnerRef_member [of "owner_ref_of p" "m_owners (meta c)"] by (simp add: child_ok_def)

text \<open>A stored object is found again through the owner reference built from it.\<close>

lemma resolve_owner_self:
  assumes wf: "store_wf st" and p: "lookup st k = Some p"
  shows "resolve_owner st (m_namespace (meta p)) (owner_ref_of p) = Some p"
proof -
  have "key_of p = k" using store_wf_lookup [OF wf p] by (simp add: obj_wf_def)
  with p show ?thesis by (simp add: resolve_owner_def key_of_def)
qed

lemma resolve_owner_same:
  assumes wf: "store_wf st" and p: "lookup st k = Some p'" and n: "m_name (meta p') = m_name (meta p)"
    and u: "m_uid (meta p') = m_uid (meta p)" and s: "kind_of (spec p') = kind_of (spec p)"
  shows "resolve_owner st (m_namespace (meta p')) (owner_ref_of p) = Some p'"
proof -
  have "owner_ref_of p = owner_ref_of p'" using n u s by (simp add: owner_ref_of_def)
  with resolve_owner_self [OF wf p] show ?thesis by simp
qed

text \<open>A child that refers to a live owner is kept by a sweep.\<close>

lemma gc_keeps_owned:
  assumes wf: "store_wf st" and c: "lookup st k = Some c" and r: "r \<in> set (m_owners (meta c))"
    and a: "resolve_owner st (m_namespace (meta c)) r \<noteq> None"
  shows "lookup (gc_sweep st) k = Some c"
proof -
  have "\<not> collectable st c" using r a by (auto simp: collectable_def list_all_iff)
  with wf c show ?thesis by (simp add: lookup_gc_sweep gc_obj_def)
qed

lemma child_key_ns:
  "store_wf st \<Longrightarrow> lookup st (svc_child_key p) = Some c \<Longrightarrow> m_namespace (meta c) = m_namespace (meta p)"
  "store_wf st \<Longrightarrow> lookup st (sts_child_key p) = Some c \<Longrightarrow> m_namespace (meta c) = m_namespace (meta p)"
  by (auto dest!: store_wf_lookup simp: obj_wf_def key_of_def svc_child_key_def sts_child_key_def)

text \<open>A child without finalizers whose only owner is gone is deleted by a sweep.\<close>

lemma gc_collects_orphan:
  assumes wf: "store_wf st" and c: "lookup st k = Some c" and o: "m_owners (meta c) = [owner_ref_of p]"
    and n: "m_finalizers (meta c) = []" and g: "lookup st (kind_of (spec p), m_namespace (meta c), m_name (meta p)) = None"
  shows "lookup (gc_sweep st) k = None"
proof -
  have "collectable st c" using o resolve_owner_gone [OF g] by (simp add: collectable_def)
  with wf c n show ?thesis by (simp add: lookup_gc_sweep gc_obj_def)
qed

text \<open>A sweep keeps the children of a provisioned parent while their owner reference resolves.\<close>

lemma gc_keeps_provisioned:
  assumes wf: "store_wf st" and pr: "provisioned tp p st"
    and res: "resolve_owner st (m_namespace (meta p)) (owner_ref_of p) \<noteq> None"
  shows "lookup (gc_sweep st) (svc_child_key p) = lookup st (svc_child_key p)
     \<and> lookup (gc_sweep st) (sts_child_key p) = lookup st (sts_child_key p)"
proof -
  obtain s1 s2 c1 c2 where c1: "lookup st (svc_child_key p) = Some c1" and o1: "child_ok p (SvcSpec s1) (Some c1)"
    and c2: "lookup st (sts_child_key p) = Some c2" and o2: "child_ok p (StsSpec s2) (Some c2)"
    using pr by (auto simp: provisioned_def child_ok_def split: option.splits sum.splits)
  have "lookup (gc_sweep st) (svc_child_key p) = Some c1"
    using gc_keeps_owned [OF wf c1 child_ok_owner [OF o1]] res child_key_ns(1) [OF wf c1] by simp
  moreover have "lookup (gc_sweep st) (sts_child_key p) = Some c2"
    using gc_keeps_owned [OF wf c2 child_ok_owner [OF o2]] res child_key_ns(2) [OF wf c2] by simp
  ultimately show ?thesis using c1 c2 by simp
qed

section \<open>Claims\<close>

text \<open>
  C26. Round trip of the owner reference: after an enabling pass on a healthy
  store, each child carries an owner reference that the server resolves, in
  the child's namespace and through the scheme's kind names, back to the
  parent as it is then stored (finalizer included).
\<close>

theorem owner_ref_roundtrip:
  assumes h: "healthy st" and wf: "store_wf st" and p: "lookup st (KService, req) = Some p"
    and en: "\<not> disabled p" and d: "desired tp p = Inr (s1, s2)" and c: "children_labelled st p"
  shows "\<exists>st' ch1 r1 ch2 r2. Reconcile tp req st = (Inr (), st')
     \<and> lookup st' (svc_child_key p) = Some ch1 \<and> r1 \<in> set (m_owners (meta ch1))
     \<and> resolve_owner st' (m_namespace (meta ch1)) r1 = lookup st' (KService, req)
     \<and> lookup st' (sts_child_key p) = Some ch2 \<and> r2 \<in> set (m_owners (meta ch2))
     \<and> resolve_owner st' (m_namespace (meta ch2)) r2 = lookup st' (KService, req)"
proof -
  obtain p' st' where r: "Reconcile tp req st = (Inr (), st')" and w: "store_wf st'"
    and pr: "provisioned tp p st'" and l: "lookup st' (KService, req) = Some p'"
    and same: "m_name (meta p') = m_name (meta p)" "m_uid (meta p') = m_uid (meta p)" "spec p' = spec p"
      "m_namespace (meta p') = m_namespace (meta p)"
    using Reconcile_enable_ok [OF h wf p en d c] by blast
  obtain c1 c2 where c1: "lookup st' (svc_child_key p) = Some c1" and o1: "child_ok p (SvcSpec s1) (Some c1)"
    and c2: "lookup st' (sts_child_key p) = Some c2" and o2: "child_ok p (StsSpec s2) (Some c2)"
    using pr d by (auto simp: provisioned_def child_ok_def split: option.splits)
  have res: "resolve_owner st' (m_namespace (meta p)) (owner_ref_of p) = Some p'"
    using resolve_owner_same [OF w l same(1,2)] same by simp
  show ?thesis
    using r c1 c2 child_ok_owner [OF o1] child_ok_owner [OF o2] child_key_ns(1) [OF w c1]
      child_key_ns(2) [OF w c2] res l by auto
qed

text \<open>
  C27. The collector keeps what a pass provisions: after an enabling pass on a
  healthy store, both children exist, and a sweep of the garbage collector
  leaves them as they are, since the owner reference \<open>createOrUpdate\<close> put
  on each resolves, by kind, namespace, name and UID, to the parent that is
  still stored.
\<close>

theorem gc_keeps_children:
  assumes h: "healthy st" and wf: "store_wf st" and p: "lookup st (KService, req) = Some p"
    and en: "\<not> disabled p" and d: "desired tp p = Inr (s1, s2)" and c: "children_labelled st p"
  shows "\<exists>st'. Reconcile tp req st = (Inr (), st')
     \<and> lookup st' (svc_child_key p) \<noteq> None \<and> lookup st' (sts_child_key p) \<noteq> None
     \<and> lookup (gc_sweep st') (svc_child_key p) = lookup st' (svc_child_key p)
     \<and> lookup (gc_sweep st') (sts_child_key p) = lookup st' (sts_child_key p)"
proof -
  obtain p' st' where r: "Reconcile tp req st = (Inr (), st')" and w: "store_wf st'"
    and pr: "provisioned tp p st'" and l: "lookup st' (KService, req) = Some p'"
    and same: "m_name (meta p') = m_name (meta p)" "m_uid (meta p') = m_uid (meta p)" "spec p' = spec p"
      "m_namespace (meta p') = m_namespace (meta p)"
    using Reconcile_enable_ok [OF h wf p en d c] by blast
  have "resolve_owner st' (m_namespace (meta p)) (owner_ref_of p) = Some p'"
    using resolve_owner_same [OF w l same(1,2)] same by simp
  then have keep: "lookup (gc_sweep st') (svc_child_key p) = lookup st' (svc_child_key p)
     \<and> lookup (gc_sweep st') (sts_child_key p) = lookup st' (sts_child_key p)"
    using gc_keeps_provisioned [OF w pr] by simp
  have "lookup st' (svc_child_key p) \<noteq> None" "lookup st' (sts_child_key p) \<noteq> None"
    using pr d by (auto simp: provisioned_def child_ok_def split: option.splits)
  with r keep show ?thesis by blast
qed

text \<open>
  C28. Teardown then collection: for a service whose deletion was requested,
  that holds only the operator's finalizer and has the device-ID annotation,
  a fault-free pass releases it, and the next sweep of the collector deletes
  the parent's two children the operator created (owned only by the parent,
  without finalizers): nothing of the service is left.
\<close>

theorem teardown_collects:
  assumes h: "healthy st" and wf: "store_wf st" and p: "lookup st (KService, req) = Some p"
    and del: "m_deletion (meta p) \<noteq> None" and f: "m_finalizers (meta p) = [finalizer]"
    and dev: "gm_get (m_annotations (meta p)) deviceIDAnnotation \<noteq> None"
    and c1: "lookup st (svc_child_key p) = Some c1" and o1: "m_owners (meta c1) = [owner_ref_of p]"
    and n1: "m_finalizers (meta c1) = []"
    and c2: "lookup st (sts_child_key p) = Some c2" and o2: "m_owners (meta c2) = [owner_ref_of p]"
    and n2: "m_finalizers (meta c2) = []"
  shows "lookup (gc_sweep (snd (Reconcile tp req st))) (KService, req) = None
     \<and> lookup (gc_sweep (snd (Reconcile tp req st))) (svc_child_key p) = None
     \<and> lookup (gc_sweep (snd (Reconcile tp req st))) (sts_child_key p) = None"
proof -
  have req: "req = (m_namespace (meta p), m_name (meta p))" and kp: "key_of p = (KService, req)"
    using parent_key [OF wf p] by auto
  let ?s1 = "tick (CGet (KService, req)) True st"
  let ?st' = "(tick (CUpdate (KService, req)) True ?s1)\<lparr>objs := AList.delete (KService, req) (objs ?s1),
                 rv_next := Suc (rv_next ?s1)\<rparr>"
  have dis: "disabled p" using del by (simp add: disabled_def)
  have "m_finalizers (meta (RemoveFinalizer p finalizer)) = []" using f by (simp add: RemoveFinalizer_def)
  moreover have "ContainsFinalizer p finalizer" using f by (simp add: ContainsFinalizer_def)
  ultimately have r: "snd (Reconcile tp req st) = ?st'"
    using h p kp dis del dev by (auto simp: Reconcile_disabled handleDelete_def client_Update_delete)
  have w: "store_wf ?st'" using Reconcile_wf [OF wf, of tp req] r by (metis prod.collapse)
  have g: "lookup ?st' (KService, req) = None" by (simp add: delete_conv')
  have l: "lookup ?st' (svc_child_key p) = Some c1" "lookup ?st' (sts_child_key p) = Some c2"
    using c1 c2 req by (simp_all add: delete_conv' lookup_def)
  have ns: "m_namespace (meta c1) = m_namespace (meta p)" "m_namespace (meta c2) = m_namespace (meta p)"
    using child_key_ns(1) [OF wf c1] child_key_ns(2) [OF wf c2] by simp_all
  have k: "kind_of (spec p) = KService" using kp by (simp add: key_of_def)
  have "lookup (gc_sweep ?st') (svc_child_key p) = None"
    by (rule gc_collects_orphan [OF w l(1) o1 n1]) (use g ns k req in simp)
  moreover have "lookup (gc_sweep ?st') (sts_child_key p) = None"
    by (rule gc_collects_orphan [OF w l(2) o2 n2]) (use g ns k req in simp)
  moreover have "lookup (gc_sweep ?st') (KService, req) = None" using w g by (simp add: lookup_gc_sweep)
  ultimately show ?thesis using r by simp
qed

end
