(* ===== verification/Interleave.thy ===== *)
theory Interleave
  imports Passes
begin

text \<open>
  Interleaving of a pass with another client's write. \<open>Reconcile\<close> reads the
  parent and then works on what it read; another client (a user running
  \<open>kubectl edit\<close>, another controller) may update the parent in between.
  \<open>reconcile_fetched\<close> is the part of \<open>Reconcile\<close> after the \<open>Get\<close>, and
  \<open>interleaved\<close> runs the read, a write of the other client, and that part,
  in this order. The lemmas show that every write of the operator is
  conditional on the version it read, so a pass working on a stale read writes
  nothing, whatever fails.
\<close>

section \<open>Definitions\<close>

definition reconcile_fetched :: "templates \<Rightarrow> kobj \<Rightarrow> store \<Rightarrow> (store, unit) res" where
  "reconcile_fetched tp svc st1 =
     (if disabled svc then handleDelete svc st1
      else rbind (client_Update (AddFinalizer svc finalizer) st1) (\<lambda>svc' st2. deployTailscale tp svc' st2))"

definition interleaved :: "templates \<Rightarrow> string \<times> string \<Rightarrow> (store \<Rightarrow> (store, kobj) res) \<Rightarrow> store \<Rightarrow> (store, unit) res" where
  "interleaved tp req w st =
     rbind (client_Get (KService, req) st) (\<lambda>svc st1. reconcile_fetched tp svc (snd (w st1)))"

section \<open>Lemmas\<close>

lemma Reconcile_fetched: "Reconcile tp req st = rbind (client_Get (KService, req) st) (reconcile_fetched tp)"
  unfolding Reconcile_def
  by (rule arg_cong [of _ _ "rbind (client_Get (KService, req) st)"]) (simp add: reconcile_fetched_def fun_eq_iff)

text \<open>An update from a stale version fails and writes nothing.\<close>

lemma stale_update:
  assumes k: "key_of ob = k" and s: "\<forall>c. lookup st k = Some c \<longrightarrow> m_rv (meta c) \<noteq> m_rv (meta ob)"
  shows "\<exists>e. client_Update ob st = (Inl e, tick (CUpdate k) False st)"
  using k s by (auto simp: client_Update_def Let_def split: option.splits)

lemma stale_handleDelete:
  assumes k: "key_of p = k" and s: "\<forall>c. lookup st k = Some c \<longrightarrow> m_rv (meta c) \<noteq> m_rv (meta p)"
  shows "lookup (snd (handleDelete p st)) = lookup st"
proof -
  obtain e where "client_Update (RemoveFinalizer p finalizer) st = (Inl e, tick (CUpdate k) False st)"
    using stale_update [of "RemoveFinalizer p finalizer" k st] k s by auto
  then show ?thesis by (auto simp: handleDelete_def fun_eq_iff split: option.splits)
qed

lemma stale_reconcile_fetched:
  assumes k: "key_of p = k" and s: "\<forall>c. lookup st k = Some c \<longrightarrow> m_rv (meta c) \<noteq> m_rv (meta p)"
  shows "lookup (snd (reconcile_fetched tp p st)) = lookup st"
proof (cases "disabled p")
  case True
  with stale_handleDelete [OF k s] show ?thesis by (simp add: reconcile_fetched_def)
next
  case False
  obtain e where "client_Update (AddFinalizer p finalizer) st = (Inl e, tick (CUpdate k) False st)"
    using stale_update [of "AddFinalizer p finalizer" k st] k s by auto
  with False show ?thesis by (simp add: reconcile_fetched_def fun_eq_iff)
qed

text \<open>A write that changed the parent leaves a version the operator did not read.\<close>

lemma write_makes_stale:
  assumes wf: "store_wf st" and p: "lookup st k = Some p" and k: "key_of ob = k"
    and w: "client_Update ob st = (Inr u, st')" and nn: "\<not> noop_update p ob"
  shows "\<forall>c. lookup st' k = Some c \<longrightarrow> m_rv (meta c) \<noteq> m_rv (meta p)"
proof -
  have "m_rv (meta p) < rv_next st" using store_wf_lookup [OF wf p] by (simp add: obj_wf_def)
  then show ?thesis using w nn p k
    by (auto simp: client_Update_def Let_def delete_conv' split: if_splits option.splits)
qed

section \<open>Claim\<close>

text \<open>
  C30. No lost update: if another client changes the parent between the
  operator's read and the rest of its pass, the pass writes nothing at all,
  under any fault schedule: the parent keeps the other client's version and no
  child is created or changed; the next pass reads the new version.
\<close>

theorem interleaved_no_lost_update:
  assumes wf: "store_wf st" and g: "client_Get (KService, req) st = (Inr p, s1)"
    and w: "client_Update ob s1 = (Inr u, s2)" and k: "key_of ob = (KService, req)"
    and nn: "\<not> noop_update p ob"
  shows "lookup (snd (interleaved tp req (client_Update ob) st)) = lookup s2"
proof -
  have l1: "lookup s1 (KService, req) = Some p" and s1: "s1 = tick (CGet (KService, req)) True st"
    using g by (auto simp: client_Get_def split: if_splits option.splits)
  have w1: "store_wf s1" using store_wf_Get [OF g wf] .
  have kp: "key_of p = (KService, req)" using parent_of_get [OF wf g] .
  have "\<forall>c. lookup s2 (KService, req) = Some c \<longrightarrow> m_rv (meta c) \<noteq> m_rv (meta p)"
    by (rule write_makes_stale [OF w1 l1 k w nn])
  then have "lookup (snd (reconcile_fetched tp p s2)) = lookup s2"
    by (rule stale_reconcile_fetched [OF kp])
  with g w show ?thesis by (simp add: interleaved_def)
qed

end
