(* ===== verification/DnsNames.thy ===== *)
theory DnsNames
  imports Naming
begin

text \<open>
  The name types of the Kubernetes API that the generated names must have. A
  Service name is a DNS-1035 label (\<open>validation.IsDNS1035Label\<close>: at most 63
  characters of lower-case letters, digits and \<open>-\<close>, starting with a letter and
  ending with a letter or digit); a pod hostname is a DNS-1123 label (the same,
  but it may start with a digit). The API server refuses an object whose name
  or hostname does not have its type. The lemmas decide when the names that
  \<open>childName\<close> and \<open>hostName\<close> build from a valid Service name have these
  types: exactly when the result fits in 63 characters.
\<close>

section \<open>Definitions\<close>

definition lower_alpha :: "char \<Rightarrow> bool" where
  "lower_alpha c \<longleftrightarrow> 97 \<le> (of_char c :: nat) \<and> (of_char c :: nat) \<le> 122"

definition lower_alnum :: "char \<Rightarrow> bool" where
  "lower_alnum c \<longleftrightarrow> lower_alpha c \<or> (48 \<le> (of_char c :: nat) \<and> (of_char c :: nat) \<le> 57)"

definition dns_char :: "char \<Rightarrow> bool" where
  "dns_char c \<longleftrightarrow> lower_alnum c \<or> c = CHR ''-''"

definition dns1123_label :: "string \<Rightarrow> bool" where
  "dns1123_label s \<longleftrightarrow> s \<noteq> [] \<and> length s \<le> 63 \<and> list_all dns_char s \<and> lower_alnum (hd s) \<and> lower_alnum (last s)"

definition dns1035_label :: "string \<Rightarrow> bool" where
  "dns1035_label s \<longleftrightarrow> dns1123_label s \<and> lower_alpha (hd s)"

section \<open>Lemmas\<close>

text \<open>Two well-formed pieces make a label exactly when they fit in 63 characters.\<close>

lemma dns1123_append:
  assumes "s \<noteq> []" "t \<noteq> []" "list_all dns_char s" "list_all dns_char t" "lower_alnum (hd s)" "lower_alnum (last t)"
  shows "dns1123_label (s @ t) \<longleftrightarrow> length s + length t \<le> 63"
  using assms by (simp add: dns1123_label_def)

lemma dns1035_append:
  assumes "s \<noteq> []" "t \<noteq> []" "list_all dns_char s" "list_all dns_char t" "lower_alpha (hd s)" "lower_alnum (last t)"
  shows "dns1035_label (s @ t) \<longleftrightarrow> length s + length t \<le> 63"
  using assms by (simp add: dns1035_label_def dns1123_label_def lower_alnum_def)

lemma dns1035_parts:
  "dns1035_label s \<Longrightarrow> s \<noteq> [] \<and> list_all dns_char s \<and> lower_alpha (hd s)"
  by (simp add: dns1035_label_def dns1123_label_def)

lemma tailscale_suffix: "list_all dns_char ''-tailscale'' \<and> lower_alnum (last ''-tailscale'')"
  by (simp add: dns_char_def lower_alnum_def lower_alpha_def)

lemma uid_suffix:
  assumes "list_all lower_alnum (take 8 u)" and "8 \<le> length u"
  shows "list_all dns_char (''-'' @ take 8 u) \<and> lower_alnum (last (''-'' @ take 8 u)) \<and> length (''-'' @ take 8 u) = 9"
proof -
  have ne: "take 8 u \<noteq> []" using assms(2) by (cases u) auto
  have "lower_alnum (last (take 8 u))" using assms(1) ne by (simp add: list_all_iff)
  with assms ne show ?thesis by (auto simp: dns_char_def list_all_iff)
qed

section \<open>Claim\<close>

text \<open>
  C31. Types of the generated names: for a Service whose name is a valid
  Service name (a DNS-1035 label) and whose UID starts with 8 lower-case
  letters or digits (as a UUID does), the child name \<open>name-tailscale\<close> is a
  valid Service name exactly when the parent's name has at most 53 characters,
  and the pod hostname \<open>name-uid[:8]\<close> is a valid hostname exactly when it has
  at most 54. Longer valid names give children the API server refuses.
\<close>

theorem generated_names_valid:
  assumes n: "dns1035_label (m_name (meta p))" and u: "list_all lower_alnum (take 8 (m_uid (meta p)))"
    and l: "8 \<le> length (m_uid (meta p))"
  shows "(dns1035_label (childName p) \<longleftrightarrow> length (m_name (meta p)) \<le> 53)
     \<and> (\<exists>h. hostName p = Inr h \<and> (dns1123_label h \<longleftrightarrow> length (m_name (meta p)) \<le> 54))"
proof -
  have np: "m_name (meta p) \<noteq> []" "list_all dns_char (m_name (meta p))" "lower_alpha (hd (m_name (meta p)))"
    using dns1035_parts [OF n] by simp_all
  have "dns1035_label (childName p) \<longleftrightarrow> length (m_name (meta p)) + length ''-tailscale'' \<le> 63"
    unfolding childName_def using np tailscale_suffix by (intro dns1035_append) simp_all
  moreover have "dns1123_label (m_name (meta p) @ ''-'' @ take 8 (m_uid (meta p)))
      \<longleftrightarrow> length (m_name (meta p)) + 9 \<le> 63"
    using dns1123_append [of "m_name (meta p)" "''-'' @ take 8 (m_uid (meta p))"] np uid_suffix [OF u l]
    by (simp add: lower_alnum_def)
  ultimately show ?thesis using l by (simp add: hostName_def)
qed

end
