(* ===== verification/Concurrency.thy ===== *)
theory Concurrency
  imports Refinement
begin

text \<open>
  Passes for different parents. The work queue serialises the passes of one
  key, but passes for different keys run on different workers (spec section 5).
  A pass for a parent reads and writes only the parent and its two children;
  on the abstract state of \<^theory_text>\<open>Refinement\<close> the abstract pass is local to those
  three keys (\<open>spec_keys\<close>), and two local operations on disjoint keys
  commute. Through the refinement lemma this gives the claim that two passes
  for parents with disjoint keys give the same results and the same visible
  store in either order.
\<close>

section \<open>Definitions\<close>

text \<open>The keys the abstract pass for a parent reads and writes.\<close>

definition spec_keys :: "kobj \<Rightarrow> objkey set" where
  "spec_keys p = {key_of p, svc_child_key p, sts_child_key p}"

section \<open>Lemmas: the abstract pass is local\<close>

lemma spec_keys_pass: "key_of p = (KService, req) \<Longrightarrow> spec_keys p = pass_keys req"
  using child_keys_of_key [of p req] by (simp add: spec_keys_def pass_keys_def)

lemma upsert_spec_other [simp]: "k \<noteq> k0 \<Longrightarrow> upsert_spec k0 a f A k = A k"
  by (simp add: upsert_spec_def)

lemma upsert_spec_same: "A k0 = B k0 \<Longrightarrow> upsert_spec k0 a f A k0 = upsert_spec k0 a f B k0"
  by (simp add: upsert_spec_def)

text \<open>The result of an abstract pass depends on the templates and the parent only.\<close>

lemma reconcile_spec_result: "fst (reconcile_spec tp p A) = fst (reconcile_spec tp p B)"
  by (simp add: reconcile_spec_def deploy_spec_def Let_def split: sum.splits)

lemma reconcile_spec_frame:
  "k \<notin> spec_keys p \<Longrightarrow> snd (reconcile_spec tp p A) k = A k"
  by (simp add: spec_keys_def reconcile_spec_def deploy_spec_def teardown_spec_def Let_def
      split: sum.splits)

text \<open>What an abstract pass leaves at a key depends on what was there only.\<close>

lemma deploy_spec_pointwise:
  assumes a: "A k = B k" shows "snd (deploy_spec tp p A) k = snd (deploy_spec tp p B) k"
proof -
  have u: "upsert_spec k0 a0 f A k = upsert_spec k0 a0 f B k" for k0 a0 f
    using a by (cases "k = k0") (simp_all add: upsert_spec_def)
  have uu: "upsert_spec k1 a1 f1 (upsert_spec k0 a0 f A) k = upsert_spec k1 a1 f1 (upsert_spec k0 a0 f B) k"
    for k0 a0 f k1 a1 f1
    using a by (cases "k = k1"; cases "k = k0") (simp_all add: upsert_spec_def)
  show ?thesis
  proof (cases "svc_yaml tp")
    case (Inr tmpl)
    show ?thesis
    proof (cases "desired_svc_spec p tmpl")
      case (Inr s1)
      show ?thesis
      proof (cases "sts_yaml tp")
        case (Inr t)
        then show ?thesis using \<open>svc_yaml tp = Inr tmpl\<close> \<open>desired_svc_spec p tmpl = Inr s1\<close> uu u
          by (cases "sts_desired p t") (simp_all add: deploy_spec_def)
      qed (use Inr \<open>svc_yaml tp = Inr tmpl\<close> u in \<open>simp add: deploy_spec_def\<close>)
    qed (use Inr a in \<open>simp add: deploy_spec_def\<close>)
  qed (use a in \<open>simp add: deploy_spec_def\<close>)
qed

lemma reconcile_spec_pointwise:
  assumes "A k = B k" shows "snd (reconcile_spec tp p A) k = snd (reconcile_spec tp p B) k"
proof (cases "disabled p")
  case True
  with assms show ?thesis by (auto simp: reconcile_spec_def teardown_spec_def Let_def)
next
  case False
  let ?f = "add_finalizer_spec (aobj_of p)"
  have "snd (deploy_spec tp p (A(key_of p \<mapsto> ?f))) k = snd (deploy_spec tp p (B(key_of p \<mapsto> ?f))) k"
    by (rule deploy_spec_pointwise) (simp add: assms)
  with False show ?thesis by (simp add: reconcile_spec_def)
qed

text \<open>Abstract passes for parents with disjoint keys commute.\<close>

lemma reconcile_spec_commute:
  assumes dj: "spec_keys p \<inter> spec_keys q = {}"
  shows "snd (reconcile_spec tp q (snd (reconcile_spec tp p A)))
       = snd (reconcile_spec tp p (snd (reconcile_spec tp q A)))"
proof
  fix k
  consider (p) "k \<in> spec_keys p" | (q) "k \<in> spec_keys q" | (none) "k \<notin> spec_keys p" "k \<notin> spec_keys q"
    by blast
  then show "snd (reconcile_spec tp q (snd (reconcile_spec tp p A))) k
       = snd (reconcile_spec tp p (snd (reconcile_spec tp q A))) k"
  proof cases
    case p
    then have n: "k \<notin> spec_keys q" using dj by blast
    have "snd (reconcile_spec tp p (snd (reconcile_spec tp q A))) k = snd (reconcile_spec tp p A) k"
      by (rule reconcile_spec_pointwise) (rule reconcile_spec_frame [OF n])
    with n show ?thesis by (simp add: reconcile_spec_frame)
  next
    case q
    then have n: "k \<notin> spec_keys p" using dj by blast
    have "snd (reconcile_spec tp q (snd (reconcile_spec tp p A))) k = snd (reconcile_spec tp q A) k"
      by (rule reconcile_spec_pointwise) (rule reconcile_spec_frame [OF n])
    with n show ?thesis by (simp add: reconcile_spec_frame)
  next
    case none
    then show ?thesis by (simp add: reconcile_spec_frame)
  qed
qed

section \<open>Lemmas: a pass leaves the other parent's keys alone\<close>

lemma pass_other:
  assumes h: "healthy st" and wf: "store_wf st" and q: "lookup st (KService, r2) = Some q"
    and cq: "children_labelled st q" and dj: "pass_keys r1 \<inter> pass_keys r2 = {}"
    and r: "Reconcile tp r1 st = (a, s1)"
  shows "healthy s1 \<and> store_wf s1 \<and> lookup s1 (KService, r2) = Some q \<and> children_labelled s1 q"
proof -
  have cf: "confined (pass_keys r1) st s1" using pass_confined [OF wf r] .
  have kq: "key_of q = (KService, r2)" using parent_key [OF wf q] by simp
  have out: "k \<notin> pass_keys r1" if "k \<in> pass_keys r2" for k using that dj by blast
  have "lookup s1 k = lookup st k" if "k \<in> pass_keys r2" for k
    using confined_lookup [OF cf out [OF that]] .
  moreover have "(KService, r2) \<in> pass_keys r2" "svc_child_key q \<in> pass_keys r2" "sts_child_key q \<in> pass_keys r2"
    using child_keys_of_key [OF kq] by (simp_all add: pass_keys_def)
  ultimately have "lookup s1 (KService, r2) = lookup st (KService, r2)"
    "lookup s1 (svc_child_key q) = lookup st (svc_child_key q)"
    "lookup s1 (sts_child_key q) = lookup st (sts_child_key q)" by simp_all
  then show ?thesis
    using confined_fault [OF cf] h Reconcile_wf [OF wf r] q cq by (simp add: children_labelled_def)
qed

lemma pass_view_parts:
  assumes "map_prod id view (Reconcile tp r s) = reconcile_spec tp p A"
  shows "fst (Reconcile tp r s) = fst (reconcile_spec tp p A)"
    "view (snd (Reconcile tp r s)) = snd (reconcile_spec tp p A)"
proof -
  obtain x y where "Reconcile tp r s = (x, y)" by (cases "Reconcile tp r s")
  with assms show "fst (Reconcile tp r s) = fst (reconcile_spec tp p A)"
    "view (snd (Reconcile tp r s)) = snd (reconcile_spec tp p A)" by (auto dest: sym)
qed

section \<open>Claim\<close>

text \<open>
  C32. Passes for different parents commute: on a healthy store holding two
  parents whose keys (each parent and its two children) are disjoint and whose
  existing children have label maps, running the pass for the first and then
  the pass for the second gives each pass the same result as the other order,
  and leaves the same store up to what the server assigns (resource versions,
  UIDs of new objects, the call log).
\<close>

theorem passes_commute:
  assumes h: "healthy st" and wf: "store_wf st"
    and p: "lookup st (KService, r1) = Some p" and q: "lookup st (KService, r2) = Some q"
    and cp: "children_labelled st p" and cq: "children_labelled st q"
    and dj: "pass_keys r1 \<inter> pass_keys r2 = {}"
  shows "fst (Reconcile tp r2 (snd (Reconcile tp r1 st))) = fst (Reconcile tp r2 st)
     \<and> fst (Reconcile tp r1 (snd (Reconcile tp r2 st))) = fst (Reconcile tp r1 st)
     \<and> view (snd (Reconcile tp r2 (snd (Reconcile tp r1 st))))
       = view (snd (Reconcile tp r1 (snd (Reconcile tp r2 st))))"
proof -
  obtain a s1 where r1: "Reconcile tp r1 st = (a, s1)" by (cases "Reconcile tp r1 st")
  obtain b s2 where r2: "Reconcile tp r2 st = (b, s2)" by (cases "Reconcile tp r2 st")
  have dj': "pass_keys r2 \<inter> pass_keys r1 = {}" using dj by blast
  have o1: "healthy s1" "store_wf s1" "lookup s1 (KService, r2) = Some q" "children_labelled s1 q"
    using pass_other [OF h wf q cq dj r1] by simp_all
  have o2: "healthy s2" "store_wf s2" "lookup s2 (KService, r1) = Some p" "children_labelled s2 p"
    using pass_other [OF h wf p cp dj' r2] by simp_all
  note v1 = pass_view_parts [OF Reconcile_view [OF h wf p cp, where tp = tp]]
  note v2 = pass_view_parts [OF Reconcile_view [OF h wf q cq, where tp = tp]]
  note v12 = pass_view_parts [OF Reconcile_view [OF o1, where tp = tp]]
  note v21 = pass_view_parts [OF Reconcile_view [OF o2, where tp = tp]]
  have kd: "spec_keys p \<inter> spec_keys q = {}"
    using dj spec_keys_pass [OF parent_key [OF wf p, THEN conjunct2]]
      spec_keys_pass [OF parent_key [OF wf q, THEN conjunct2]] by simp
  have "fst (Reconcile tp r2 s1) = fst (Reconcile tp r2 st)"
    using v12(1) v2(1) reconcile_spec_result [of tp q "view s1" "view st"] by simp
  moreover have "fst (Reconcile tp r1 s2) = fst (Reconcile tp r1 st)"
    using v21(1) v1(1) reconcile_spec_result [of tp p "view s2" "view st"] by simp
  moreover have "view (snd (Reconcile tp r2 s1)) = view (snd (Reconcile tp r1 s2))"
  proof -
    have "view s1 = snd (reconcile_spec tp p (view st))" using v1(2) r1 by simp
    moreover have "view s2 = snd (reconcile_spec tp q (view st))" using v2(2) r2 by simp
    ultimately show ?thesis using v12(2) v21(2) reconcile_spec_commute [OF kd, of tp "view st"] by simp
  qed
  ultimately show ?thesis using r1 r2 by simp
qed

end
