(* ===== verification/Recovery.thy ===== *)
theory Recovery
  imports Cluster
begin

text \<open>
  Recovery after failed passes (spec section 7: a pass that fails or crashes
  part-way leaves the finalizer and any children written so far, and the next
  pass completes the provisioning). A crash after some calls is the fault
  schedule failing every later call of the pass, so the failed passes are
  passes under an arbitrary schedule. Two facts carry the proof: a pass for an
  enabled parent, whatever fails, leaves the parent with the same identity,
  annotations and spec (\<open>same_parent\<close>); and every object the operator writes
  has a label map, so the precondition of the enabling pass
  (\<open>children_labelled\<close>) holds after every pass (\<open>obj_at\<close> of an object
  property that the server's fields do not affect), so along the retries.
\<close>

section \<open>Definitions\<close>

text \<open>A property holds of the object stored at a key, if there is one.\<close>

definition obj_at :: "(kobj \<Rightarrow> bool) \<Rightarrow> objkey \<Rightarrow> store \<Rightarrow> bool" where
  "obj_at P k st = (case lookup st k of None \<Rightarrow> True | Some c \<Rightarrow> P c)"

text \<open>The property does not depend on the fields the server assigns.\<close>

definition server_blind :: "(kobj \<Rightarrow> bool) \<Rightarrow> bool" where
  "server_blind P \<longleftrightarrow> (\<forall>st cur ob. P (updated st cur ob) = P ob \<and> P (created st ob) = P ob)"

text \<open>Every object a mutation produces has the property.\<close>

definition yields :: "(kobj \<Rightarrow> bool) \<Rightarrow> (kobj \<Rightarrow> error + kobj) \<Rightarrow> bool" where
  "yields P f \<longleftrightarrow> (\<forall>ex m. f ex = Inr m \<longrightarrow> P m)"

definition labelled :: "kobj \<Rightarrow> bool" where
  "labelled c \<longleftrightarrow> m_labels (meta c) \<noteq> None"

definition same_parent :: "kobj \<Rightarrow> kobj \<Rightarrow> bool" where
  "same_parent a b \<longleftrightarrow> m_name (meta a) = m_name (meta b) \<and> m_uid (meta a) = m_uid (meta b)
     \<and> spec a = spec b \<and> m_namespace (meta a) = m_namespace (meta b)
     \<and> m_annotations (meta a) = m_annotations (meta b) \<and> m_deletion (meta a) = m_deletion (meta b)"

section \<open>Lemmas: a property of the stored objects through the client calls\<close>

lemma obj_at_tick [simp]: "obj_at P k (tick c b st) = obj_at P k st"
  by (simp add: obj_at_def)

lemma obj_at_frame: "confined K st st' \<Longrightarrow> k \<notin> K \<Longrightarrow> obj_at P k st' = obj_at P k st"
  by (simp add: obj_at_def confined_lookup)

lemma server_blind_labelled: "server_blind labelled"
  by (simp add: server_blind_def labelled_def)

lemma client_Update_obj_at:
  assumes r: "client_Update ob st = (r, st')" and a: "obj_at P k st" and b: "server_blind P"
    and w: "key_of ob = k \<Longrightarrow> P ob"
  shows "obj_at P k st'"
proof (cases "key_of ob = k")
  case False
  with a show ?thesis using obj_at_frame [OF client_Update_confined [OF r]] by simp
next
  case True
  from r show ?thesis
  proof (cases rule: client_Update_cases)
    case (put cur)
    then show ?thesis using True w b by (simp add: obj_at_def server_blind_def)
  qed (use a True in \<open>simp_all add: obj_at_def\<close>)
qed

lemma client_Create_obj_at:
  assumes r: "client_Create ob st = (r, st')" and a: "obj_at P k st" and b: "server_blind P"
    and w: "key_of ob = k \<Longrightarrow> P ob"
  shows "obj_at P k st'"
proof (cases "key_of ob = k")
  case False
  with a show ?thesis using obj_at_frame [OF client_Create_confined [OF r]] by simp
next
  case True
  with r a b w show ?thesis
    by (cases "fault st (calls st)"; cases "lookup st (key_of ob)")
      (auto simp: store_simps obj_at_def server_blind_def)
qed

lemma CreateOrUpdate_obj_at:
  assumes r: "CreateOrUpdate obj f st = (r, st')" and a: "obj_at P k st" and b: "server_blind P"
    and y: "yields P f"
  shows "obj_at P k st'"
proof -
  have m: "P m" if "mutate f (key_of obj) x = Inr m" for x m
    using that y by (auto simp: mutate_def yields_def split: sum.splits if_splits)
  have km: "key_of m = key_of obj" if "mutate f (key_of obj) x = Inr m" for x m
    using mutate_key [OF that] .
  show ?thesis
  proof (cases "fault st (calls st)")
    case True
    with r a show ?thesis by (auto simp: store_simps)
  next
    case nf: False
    let ?s1 = "tick (CGet (key_of obj)) True st"
    show ?thesis
    proof (cases "lookup st (key_of obj)")
      case None
      show ?thesis
      proof (cases "mutate f (key_of obj) obj")
        case (Inr m)
        let ?s0 = "tick (CGet (key_of obj)) False st"
        obtain r2 s2 where c: "client_Create m ?s0 = (r2, s2)" by (cases "client_Create m ?s0")
        have "obj_at P k s2" using client_Create_obj_at [OF c] a b m [OF Inr] by simp
        moreover have "st' = s2" using r nf None Inr c by (cases r2) (auto simp: CreateOrUpdate_absent)
        ultimately show ?thesis by simp
      qed (use r nf None a in \<open>auto simp: CreateOrUpdate_absent\<close>)
    next
      case (Some ex)
      show ?thesis
      proof (cases "mutate f (key_of obj) ex")
        case (Inr m)
        obtain r2 s2 where u: "client_Update m ?s1 = (r2, s2)" by (cases "client_Update m ?s1")
        have "obj_at P k s2" using client_Update_obj_at [OF u] a b m [OF Inr] by simp
        moreover have "st' = ?s1 \<or> st' = s2"
          using r nf Some Inr u by (cases r2) (auto simp: CreateOrUpdate_present split: if_splits)
        ultimately show ?thesis using a by auto
      qed (use r nf Some a in \<open>auto simp: CreateOrUpdate_present\<close>)
    qed
  qed
qed

lemma createOrUpdate_obj_at:
  assumes r: "createOrUpdate owner obj fn st = (r, st')" and a: "obj_at P k st" and b: "server_blind P"
    and y: "yields P fn"
  shows "obj_at P k st'"
proof -
  obtain r1 where c: "CreateOrUpdate obj (owned_mutation owner fn) st = (r1, st')"
    using r by (cases "CreateOrUpdate obj (owned_mutation owner fn) st")
      (auto simp: createOrUpdate_def split: sum.splits)
  have "yields P (owned_mutation owner fn)"
    using y by (auto simp: yields_def owned_mutation_def split: sum.splits)
  with CreateOrUpdate_obj_at [OF c a b] show ?thesis by blast
qed

section \<open>Lemmas: label maps through a pass\<close>

lemma svc_mutate_labelled: "yields labelled (svc_mutate p tmpl)"
  by (auto simp: yields_def labelled_def svc_mutate_def gm_put_Inr_iff split: sum.splits)

lemma sts_mutate_labelled: "yields labelled (sts_mutate p ds)"
  by (auto simp: yields_def labelled_def sts_mutate_def gm_put_Inr_iff split: sum.splits)

lemma labelled_finalizers [simp]:
  "labelled (AddFinalizer ob f) = labelled ob" "labelled (RemoveFinalizer ob f) = labelled ob"
  by (simp_all add: labelled_def)

lemma deployTailscale_labelled:
  assumes r: "deployTailscale tp p st = (r, st')" and a: "obj_at labelled k st"
  shows "obj_at labelled k st'"
proof -
  obtain r1 s1 where c: "reconcileService tp p st = (r1, s1)" by (cases "reconcileService tp p st")
  have a1: "obj_at labelled k s1"
    using c a by (auto simp: reconcileService_def split: sum.splits
        intro: createOrUpdate_obj_at server_blind_labelled svc_mutate_labelled)
  show ?thesis
  proof (cases r1)
    case (Inl e)
    with r c a1 show ?thesis by (simp add: deployTailscale_def)
  next
    case (Inr u)
    with r c have "reconcileStatefulSet tp p s1 = (r, st')" by (simp add: deployTailscale_def)
    with a1 show ?thesis
      by (auto simp: reconcileStatefulSet_def split: sum.splits
          intro: createOrUpdate_obj_at server_blind_labelled sts_mutate_labelled)
  qed
qed

text \<open>The parent is written back with the labels it was read with.\<close>

lemma finalizer_write_labelled:
  assumes u: "client_Update ob st = (r, st')" and a: "obj_at labelled k st"
    and kg: "key_of ob = key_of p" and lg: "labelled ob = labelled p"
    and same: "key_of p = k \<Longrightarrow> lookup st k = Some p"
  shows "obj_at labelled k st'"
proof -
  have "key_of ob = k \<Longrightarrow> labelled ob"
    using a same kg lg by (simp add: obj_at_def)
  with client_Update_obj_at [OF u a server_blind_labelled] show ?thesis by blast
qed

lemma Reconcile_labelled:
  assumes wf: "store_wf st" and r: "Reconcile tp req st = (r, st')" and a: "obj_at labelled k st"
  shows "obj_at labelled k st'"
using r proof (cases rule: Reconcile_cases)
  case (get_fail e)
  with a show ?thesis by (auto dest: client_Get_trace)
next
  case (teardown p s1)
  have s1: "s1 = tick (CGet (KService, req)) True st" using teardown(1) by (auto dest: client_Get_trace)
  have kp: "key_of p = (KService, req)" using wf teardown(1) by (rule parent_of_get)
  have same: "key_of p = k \<Longrightarrow> lookup s1 k = Some p" using client_Get_Inr [OF teardown(1)] s1 kp by simp
  from handleDelete_run [OF teardown(3)] show ?thesis
  proof
    assume "st' = s1"
    with a s1 show ?thesis by simp
  next
    assume "\<exists>r'. client_Update (RemoveFinalizer p finalizer) s1 = (r', st')"
    then obtain r1 where u: "client_Update (RemoveFinalizer p finalizer) s1 = (r1, st')" ..
    show ?thesis by (rule finalizer_write_labelled [OF u _ _ _ same]) (simp_all add: a s1)
  qed
next
  case (fin_fail p s1 e)
  have s1: "s1 = tick (CGet (KService, req)) True st" using fin_fail(1) by (auto dest: client_Get_trace)
  have kp: "key_of p = (KService, req)" using wf fin_fail(1) by (rule parent_of_get)
  have same: "key_of p = k \<Longrightarrow> lookup s1 k = Some p" using client_Get_Inr [OF fin_fail(1)] s1 kp by simp
  show ?thesis by (rule finalizer_write_labelled [OF fin_fail(3) _ _ _ same]) (simp_all add: a s1)
next
  case (deploy p s1 p' s2)
  have s1: "s1 = tick (CGet (KService, req)) True st" using deploy(1) by (auto dest: client_Get_trace)
  have kp: "key_of p = (KService, req)" using wf deploy(1) by (rule parent_of_get)
  have same: "key_of p = k \<Longrightarrow> lookup s1 k = Some p" using client_Get_Inr [OF deploy(1)] s1 kp by simp
  have "obj_at labelled k s2" by (rule finalizer_write_labelled [OF deploy(3) _ _ _ same]) (simp_all add: a s1)
  with deployTailscale_labelled [OF deploy(4)] show ?thesis .
qed

lemma children_labelled_obj_at:
  "children_labelled st p \<longleftrightarrow> obj_at labelled (svc_child_key p) st \<and> obj_at labelled (sts_child_key p) st"
  by (simp add: children_labelled_def obj_at_def labelled_def split: option.splits)

section \<open>Lemmas: the parent through a failing pass\<close>

lemma same_parent_refl [simp]: "same_parent p p"
  by (simp add: same_parent_def)

lemma same_parent_trans: "same_parent a b \<Longrightarrow> same_parent b c \<Longrightarrow> same_parent a c"
  by (simp add: same_parent_def)

lemma same_parent_disabled: "same_parent a b \<Longrightarrow> disabled a = disabled b"
  by (simp add: same_parent_def disabled_def)

lemma same_parent_keys:
  "same_parent a b \<Longrightarrow> svc_child_key a = svc_child_key b \<and> sts_child_key a = sts_child_key b"
  by (simp add: same_parent_def svc_child_key_def sts_child_key_def childName_def)

text \<open>
  A write of the parent that keeps its identity, and cannot delete it, leaves a
  parent with that identity, whatever it returns.
\<close>

lemma update_same_parent:
  assumes u: "client_Update ob s1 = (r, s2)" and l: "lookup s1 (key_of p) = Some p"
    and k: "key_of ob = key_of p" and sp: "same_parent ob p"
    and nd: "m_deletion (meta p) = None \<or> m_finalizers (meta ob) \<noteq> []"
  shows "\<exists>p1. lookup s2 (key_of p) = Some p1 \<and> same_parent p1 p"
  using u
proof (cases rule: client_Update_cases)
  case (put cur)
  then show ?thesis using l k sp by (simp add: same_parent_def)
next
  case (del cur)
  then show ?thesis using l k nd by simp
qed (use l k in simp_all)

lemma AddFinalizer_same_parent:
  assumes u: "client_Update (AddFinalizer p finalizer) s1 = (r, s2)" and l: "lookup s1 (key_of p) = Some p"
  shows "\<exists>p1. lookup s2 (key_of p) = Some p1 \<and> same_parent p1 p"
  by (rule update_same_parent [OF u l]) (auto simp: same_parent_def)

lemma Reconcile_same_parent:
  assumes wf: "store_wf st" and p: "lookup st (KService, req) = Some p" and en: "\<not> disabled p"
    and r: "Reconcile tp req st = (r, st')"
  shows "\<exists>p1. lookup st' (KService, req) = Some p1 \<and> same_parent p1 p"
using r proof (cases rule: Reconcile_cases)
  case (get_fail e)
  with p show ?thesis by (auto dest: client_Get_trace)
next
  case (teardown p0 s1)
  with p en show ?thesis by (auto dest: client_Get_Inr)
next
  case (fin_fail p0 s1 e)
  have s1: "s1 = tick (CGet (KService, req)) True st" using fin_fail(1) by (auto dest: client_Get_trace)
  have "p0 = p" using client_Get_Inr [OF fin_fail(1)] p by simp
  with fin_fail(3) fin_fail(4) have "st' = tick (CUpdate (key_of (AddFinalizer p finalizer))) False s1"
    by (cases rule: client_Update_cases) simp_all
  with p s1 show ?thesis by auto
next
  case (deploy p0 s1 p' s2)
  have s1: "s1 = tick (CGet (KService, req)) True st" using deploy(1) by (auto dest: client_Get_trace)
  have p0: "p0 = p" using client_Get_Inr [OF deploy(1)] p by simp
  have kp: "key_of p = (KService, req)" using parent_key [OF wf p] by simp
  obtain p1 where l2: "lookup s2 (KService, req) = Some p1" and sp: "same_parent p1 p"
    using AddFinalizer_same_parent [of p s1] deploy(3) p0 p s1 kp by auto
  have w1: "store_wf s1" using store_wf_Get [OF deploy(1) wf] .
  have kp': "key_of p' = (KService, req)" using client_Update_Inr_key [OF w1 deploy(3)] p0 kp by simp
  have "(KService, req) \<notin> {svc_child_key p', sts_child_key p'}"
    using child_keys_of_key [OF kp'] by (cases req) simp
  with confined_lookup [OF deployTailscale_confined [OF deploy(4)]] l2 sp show ?thesis by auto
qed

section \<open>Lemmas: retries\<close>

text \<open>What survives any number of passes for an enabled parent, whatever fails.\<close>

lemma retries_keep:
  assumes wf: "store_wf st" and p: "lookup st (KService, req) = Some p" and en: "\<not> disabled p"
    and c: "children_labelled st p"
  shows "store_wf (((\<lambda>s. snd (Reconcile tp req s)) ^^ n) st)
     \<and> (\<exists>p1. lookup (((\<lambda>s. snd (Reconcile tp req s)) ^^ n) st) (KService, req) = Some p1 \<and> same_parent p1 p)
     \<and> children_labelled (((\<lambda>s. snd (Reconcile tp req s)) ^^ n) st) p"
proof (induction n)
  case 0
  with wf p c show ?case by simp
next
  case (Suc n)
  let ?s = "((\<lambda>s. snd (Reconcile tp req s)) ^^ n) st"
  obtain r s' where r: "Reconcile tp req ?s = (r, s')" by (cases "Reconcile tp req ?s")
  obtain p1 where w: "store_wf ?s" and l: "lookup ?s (KService, req) = Some p1" and sp: "same_parent p1 p"
    and c1: "children_labelled ?s p" using Suc.IH by blast
  have en1: "\<not> disabled p1" using en same_parent_disabled [OF sp] by simp
  obtain p2 where "lookup s' (KService, req) = Some p2" "same_parent p2 p1"
    using Reconcile_same_parent [OF w l en1 r] by blast
  moreover have "children_labelled s' p"
    using c1 Reconcile_labelled [OF w r] by (simp add: children_labelled_obj_at)
  ultimately show ?case using Reconcile_wf [OF w r] r sp by (auto intro: same_parent_trans)
qed

section \<open>Claims\<close>

text \<open>
  C33. Recovery: for an enabled service whose templates build and whose
  existing children have label maps, after any number of passes under any
  fault schedule (failed, or cut off by a crash after any call), the first pass
  once the faults stop succeeds, leaves both children with the desired state
  and the parent holding the finalizer: a partial provisioning is completed,
  never rolled back or stuck.
\<close>

theorem retries_provision:
  assumes wf: "store_wf st" and p: "lookup st (KService, req) = Some p" and en: "\<not> disabled p"
    and d: "desired tp p = Inr (s1, s2)" and c: "children_labelled st p"
  shows "\<exists>st' p'. Reconcile tp req ((((\<lambda>s. snd (Reconcile tp req s)) ^^ n) st)\<lparr>fault := (\<lambda>_. False)\<rparr>)
       = (Inr (), st') \<and> provisioned tp p st' \<and> lookup st' (KService, req) = Some p' \<and> ContainsFinalizer p' finalizer"
proof -
  let ?s = "(((\<lambda>s. snd (Reconcile tp req s)) ^^ n) st)\<lparr>fault := (\<lambda>_. False)\<rparr>"
  obtain p1 where w: "store_wf ?s" and l: "lookup ?s (KService, req) = Some p1" and sp: "same_parent p1 p"
    and c1: "children_labelled ?s p"
    using retries_keep [OF wf p en c, where tp = tp and n = n] by (auto simp: store_wf_def lookup_def children_labelled_def)
  have en1: "\<not> disabled p1" using en same_parent_disabled [OF sp] by simp
  have same: "m_name (meta p1) = m_name (meta p)" "m_uid (meta p1) = m_uid (meta p)" "spec p1 = spec p"
    "m_namespace (meta p1) = m_namespace (meta p)" using sp by (simp_all add: same_parent_def)
  have d1: "desired tp p1 = Inr (s1, s2)" using desired_cong [OF same(1-3)] d by simp
  have c1': "children_labelled ?s p1" using c1 same_parent_keys [OF sp] by (simp add: children_labelled_def)
  have h: "healthy ?s" by simp
  obtain p' st' where "Reconcile tp req ?s = (Inr (), st')" "provisioned tp p1 st'"
    "lookup st' (KService, req) = Some p'" "ContainsFinalizer p' finalizer"
    using Reconcile_enable_ok [OF h w l en1 d1 c1'] by blast
  with provisioned_cong [OF same] show ?thesis by auto
qed

end
