(* ===== verification/Guard.thy ===== *)
theory Guard
  imports Recovery
begin

text \<open>
  The finalizer invariant of spec section 3 along every run of the operator:
  an enabled Service one of whose children \<open><name>-tailscale\<close> carries its
  owner reference holds the finalizer. A pass writes a child with the parent's
  owner reference only after the Update that persists the finalizer succeeded;
  the teardown removes the finalizer only from a disabled service; and a pass
  that rewrites another Service (one stored under its own child's name) keeps
  that Service's name, UID, annotations, deletion and finalizers. The invariant
  is stated over the stored objects (\<open>finalizer_guard\<close>, executable), and
  proved for one pass whatever fails, then by rule induction on
  \<open>operator_run\<close>. It is the half of the spec's \<open>finalizer iff
  provisioning begun\<close> that the code keeps for enabled services; for a service
  switched off the teardown removes the finalizer and leaves the children
  (\<^theory_text>\<open>Disable\<close>), so the guard says nothing of disabled ones.
\<close>

section \<open>Definitions\<close>

text \<open>The object stored at \<open>k\<close> carries the owner reference \<open>r\<close>.\<close>

definition owned_at :: "store \<Rightarrow> objkey \<Rightarrow> owner_ref \<Rightarrow> bool" where
  "owned_at st k r = (case lookup st k of None \<Rightarrow> False | Some c \<Rightarrow> r \<in> set (m_owners (meta c)))"

definition child_owned :: "store \<Rightarrow> kobj \<Rightarrow> bool" where
  "child_owned st p \<longleftrightarrow> owned_at st (svc_child_key p) (owner_ref_of p) \<or> owned_at st (sts_child_key p) (owner_ref_of p)"

definition finalizer_guard :: "store \<Rightarrow> bool" where
  "finalizer_guard st \<longleftrightarrow> list_all (\<lambda>k. case lookup st k of None \<Rightarrow> True
     | Some p \<Rightarrow> fst k = KService \<and> \<not> disabled p \<and> child_owned st p \<longrightarrow> ContainsFinalizer p finalizer)
     (map fst (objs st))"

text \<open>What a write keeps of the object it replaces.\<close>

definition same_meta :: "kobj \<Rightarrow> kobj \<Rightarrow> bool" where
  "same_meta m b \<longleftrightarrow> m_name (meta m) = m_name (meta b) \<and> m_namespace (meta m) = m_namespace (meta b)
     \<and> m_uid (meta m) = m_uid (meta b) \<and> m_annotations (meta m) = m_annotations (meta b)
     \<and> m_deletion (meta m) = m_deletion (meta b) \<and> m_finalizers (meta m) = m_finalizers (meta b)
     \<and> kind_of (spec m) = kind_of (spec b)"

text \<open>Every object the mutation produces has at most the owner \<open>x\<close> besides those it had.\<close>

definition owners_within :: "owner_ref \<Rightarrow> (kobj \<Rightarrow> error + kobj) \<Rightarrow> bool" where
  "owners_within x f \<longleftrightarrow> (\<forall>ex m. f ex = Inr m \<longrightarrow> set (m_owners (meta m)) \<subseteq> insert x (set (m_owners (meta ex))))"

section \<open>Lemmas: the invariant through lookups\<close>

lemma guard_iff:
  "finalizer_guard st \<longleftrightarrow> (\<forall>k p. lookup st k = Some p \<longrightarrow> fst k = KService \<longrightarrow> \<not> disabled p
     \<longrightarrow> child_owned st p \<longrightarrow> ContainsFinalizer p finalizer)"
proof -
  have "lookup st k = Some p \<Longrightarrow> k \<in> set (map fst (objs st))" for k p
    by (force simp: lookup_def dest: map_of_SomeD)
  then show ?thesis by (fastforce simp: finalizer_guard_def list_all_iff split: option.splits)
qed

lemma guard_lookup:
  "finalizer_guard st \<Longrightarrow> lookup st k = Some p \<Longrightarrow> fst k = KService \<Longrightarrow> \<not> disabled p \<Longrightarrow> child_owned st p
   \<Longrightarrow> ContainsFinalizer p finalizer"
  unfolding guard_iff by blast

text \<open>A store where no owner reference appeared, and every Service either kept, or that holds the finalizer or is off.\<close>

lemma guard_step:
  assumes g: "finalizer_guard st"
    and own: "\<And>k x. owned_at st' k x \<Longrightarrow> owned_at st k x"
    and obj: "\<And>k p. lookup st' k = Some p \<Longrightarrow> fst k = KService \<Longrightarrow> \<not> disabled p \<Longrightarrow>
                lookup st k = Some p \<or> ContainsFinalizer p finalizer"
  shows "finalizer_guard st'"
unfolding guard_iff
proof (intro allI impI)
  fix k p
  assume l: "lookup st' k = Some p" and kk: "fst k = KService" and en: "\<not> disabled p" and co: "child_owned st' p"
  have "child_owned st p" using co own unfolding child_owned_def by blast
  with obj [OF l kk en] g kk en show "ContainsFinalizer p finalizer" by (auto dest: guard_lookup)
qed

lemma owned_at_tick [simp]: "owned_at (tick c b st) k x = owned_at st k x"
  by (simp add: owned_at_def)

lemma child_owned_tick [simp]: "child_owned (tick c b st) p = child_owned st p"
  by (simp add: child_owned_def)

lemma guard_tick [simp]: "finalizer_guard (tick c b st) = finalizer_guard st"
  by (simp add: guard_iff)

lemma disabled_updated:
  "m_deletion (meta ob) = m_deletion (meta cur) \<Longrightarrow> disabled (updated st cur ob) = disabled ob"
  by (simp add: disabled_def updated_def)

lemma same_meta_parts:
  assumes "same_meta m b"
  shows "owner_ref_of m = owner_ref_of b" "disabled m = disabled b"
    "svc_child_key m = svc_child_key b" "sts_child_key m = sts_child_key b"
    "ContainsFinalizer m f = ContainsFinalizer b f"
  using assms by (simp_all add: same_meta_def owner_ref_of_def disabled_def svc_child_key_def
      sts_child_key_def childName_def ContainsFinalizer_def)

lemma child_keys_meet:
  "k \<in> {svc_child_key a, sts_child_key a} \<Longrightarrow> k \<in> {svc_child_key b, sts_child_key b}
   \<Longrightarrow> m_namespace (meta a) = m_namespace (meta b) \<and> m_name (meta a) = m_name (meta b)"
  by (auto simp: svc_child_key_def sts_child_key_def childName_def)

lemma key_of_wf: "store_wf st \<Longrightarrow> lookup st k = Some c \<Longrightarrow> key_of c = k"
  by (drule (1) store_wf_lookup) (simp add: obj_wf_def)

text \<open>
  A step in which the only new owner references are those of \<open>q\<close>, on the
  keys of its children, while \<open>q\<close> is stored with the finalizer; every
  enabled Service is then one that holds the finalizer, or one with the
  identity of the object stored at its key before.
\<close>

lemma guard_grow:
  assumes g: "finalizer_guard st" and wf': "store_wf st'"
    and q: "lookup st' (key_of q) = Some q" "fst (key_of q) = KService" "ContainsFinalizer q finalizer"
    and own: "\<And>k x. owned_at st' k x \<Longrightarrow> owned_at st k x \<or> (k \<in> {svc_child_key q, sts_child_key q} \<and> x = owner_ref_of q)"
    and obj: "\<And>k p. lookup st' k = Some p \<Longrightarrow> fst k = KService \<Longrightarrow> \<not> disabled p \<Longrightarrow>
                ContainsFinalizer p finalizer \<or> (\<exists>c. lookup st k = Some c \<and> same_meta p c \<and> key_of c = k)"
  shows "finalizer_guard st'"
unfolding guard_iff
proof (intro allI impI)
  fix k p
  assume l: "lookup st' k = Some p" and kk: "fst k = KService" and en: "\<not> disabled p" and co: "child_owned st' p"
  show "ContainsFinalizer p finalizer"
  using obj [OF l kk en]
  proof
    assume "\<exists>c. lookup st k = Some c \<and> same_meta p c \<and> key_of c = k"
    then obtain c where c: "lookup st k = Some c" "same_meta p c" "key_of c = k" by blast
    note sm = same_meta_parts [OF c(2)]
    have "owned_at st' (svc_child_key c) (owner_ref_of c) \<or> owned_at st' (sts_child_key c) (owner_ref_of c)"
      using co sm by (simp add: child_owned_def)
    then obtain ck where ck: "ck \<in> {svc_child_key c, sts_child_key c}" "owned_at st' ck (owner_ref_of c)"
      by blast
    show ?thesis
    proof (cases "owned_at st ck (owner_ref_of c)")
      case True
      then have "child_owned st c" using ck(1) by (auto simp: child_owned_def)
      with g c kk en sm show ?thesis by (auto dest: guard_lookup)
    next
      case False
      then have "ck \<in> {svc_child_key q, sts_child_key q}" using own [OF ck(2)] by blast
      from child_keys_meet [OF ck(1) this] c(3) kk q(2) have "k = key_of q" by (auto simp: key_of_def)
      with l q show ?thesis by simp
    qed
  qed
qed

section \<open>Lemmas: the client calls\<close>

text \<open>An update that keeps the owners and the deletion of the stored object, and writes the finalizer or an off Service.\<close>

lemma client_Update_guard:
  assumes u: "client_Update ob st = (r, st')" and g: "finalizer_guard st"
    and c: "lookup st (key_of ob) = Some c" and o: "m_owners (meta ob) = m_owners (meta c)"
    and d: "m_deletion (meta ob) = m_deletion (meta c)" and fin: "disabled ob \<or> ContainsFinalizer ob finalizer"
  shows "finalizer_guard st'"
using u proof (cases rule: client_Update_cases)
  case fail
  with g show ?thesis by simp
next
  case (noop cur)
  with g show ?thesis by simp
next
  case (put cur)
  have cur: "cur = c" using put(1) c by simp
  show ?thesis
  proof (rule guard_step [OF g])
    show "owned_at st' k x \<Longrightarrow> owned_at st k x" for k x
      using put(3) c o cur by (cases "k = key_of ob") (simp_all add: owned_at_def updated_def lookup_def)
    show "lookup st k = Some p \<or> ContainsFinalizer p finalizer"
      if "lookup st' k = Some p" "\<not> disabled p" for k p
      using that put(3) fin d cur by (cases "k = key_of ob") (auto simp: disabled_updated lookup_def)
  qed
next
  case (del cur)
  show ?thesis
  proof (rule guard_step [OF g])
    show "owned_at st' k x \<Longrightarrow> owned_at st k x" for k x
      using del(5) by (cases "k = key_of ob") (simp_all add: owned_at_def lookup_def)
    show "lookup st k = Some p \<or> ContainsFinalizer p finalizer" if "lookup st' k = Some p" for k p
      using that del(5) by (cases "k = key_of ob") (simp_all add: lookup_def)
  qed
qed

lemma same_meta_refl [simp]: "same_meta b b"
  by (simp add: same_meta_def)

lemma same_meta_owner: "same_meta m b \<Longrightarrow> owner_ref_of m = owner_ref_of b"
  by (simp add: same_meta_def owner_ref_of_def)

lemma same_meta_disabled: "same_meta m b \<Longrightarrow> disabled m = disabled b"
  by (simp add: same_meta_def disabled_def)

lemma same_meta_keys: "same_meta m b \<Longrightarrow> svc_child_key m = svc_child_key b \<and> sts_child_key m = sts_child_key b"
  by (simp add: same_meta_def svc_child_key_def sts_child_key_def childName_def)

lemma child_owned_cong:
  "lookup st' (svc_child_key p) = lookup st (svc_child_key p) \<Longrightarrow>
   lookup st' (sts_child_key p) = lookup st (sts_child_key p) \<Longrightarrow> child_owned st' p = child_owned st p"
  by (simp add: child_owned_def owned_at_def)

lemma client_Update_at:
  assumes u: "client_Update ob st = (r, st')"
  shows "lookup st' k = lookup st k \<or> (k = key_of ob \<and> (\<exists>c. lookup st k = Some c
           \<and> (lookup st' k = None \<or> lookup st' k = Some (updated st c ob))))"
  using u by (cases rule: client_Update_cases) (auto simp: lookup_def)

lemma client_Create_at:
  assumes c: "client_Create ob st = (r, st')"
  shows "lookup st' k = lookup st k \<or> (k = key_of ob \<and> lookup st' k = Some (created st ob))"
  using c by (cases "fault st (calls st)"; cases "lookup st (key_of ob)") (auto simp: store_simps lookup_def split: if_splits)

lemma mutate_Inr: "mutate f k ob = Inr m \<Longrightarrow> f ob = Inr m"
  by (auto simp: mutate_def split: sum.splits if_splits)

text \<open>What \<open>CreateOrUpdate\<close> leaves at a key: what was there, or the mutated object created or written.\<close>

lemma CreateOrUpdate_at:
  assumes r: "CreateOrUpdate obj f st = (r, st')"
  shows "lookup st' k = lookup st k \<or> (k = key_of obj \<and> (\<exists>s m.
           (lookup st k = None \<and> mutate f k obj = Inr m \<and> lookup st' k = Some (created s m))
         \<or> (\<exists>ex. lookup st k = Some ex \<and> mutate f k ex = Inr m
                 \<and> (lookup st' k = None \<or> lookup st' k = Some (updated s ex m)))))"
proof (cases "k = key_of obj")
  case False
  with confined_lookup [OF CreateOrUpdate_confined [OF r]] show ?thesis by simp
next
  case kk: True
  show ?thesis
  proof (cases "fault st (calls st)")
    case True
    with r show ?thesis by (auto simp: store_simps)
  next
    case nf: False
    show ?thesis
    proof (cases "lookup st (key_of obj)")
      case None
      show ?thesis
      proof (cases "mutate f (key_of obj) obj")
        case (Inr m)
        let ?s0 = "tick (CGet (key_of obj)) False st"
        obtain r2 s2 where c: "client_Create m ?s0 = (r2, s2)" by (cases "client_Create m ?s0")
        have "st' = s2" using r nf None Inr c by (cases r2) (auto simp: CreateOrUpdate_absent)
        with client_Create_at [OF c, of k] kk None Inr mutate_key [OF Inr] show ?thesis by auto
      qed (use r nf None in \<open>auto simp: CreateOrUpdate_absent\<close>)
    next
      case (Some ex)
      let ?s1 = "tick (CGet (key_of obj)) True st"
      show ?thesis
      proof (cases "mutate f (key_of obj) ex")
        case (Inr m)
        obtain r2 s2 where u: "client_Update m ?s1 = (r2, s2)" by (cases "client_Update m ?s1")
        have "st' = ?s1 \<or> st' = s2"
          using r nf Some Inr u by (cases r2) (auto simp: CreateOrUpdate_present split: if_splits)
        with client_Update_at [OF u, of k] kk Some Inr mutate_key [OF Inr] show ?thesis by auto
      qed (use r nf Some in \<open>auto simp: CreateOrUpdate_present\<close>)
    qed
  qed
qed

section \<open>Lemmas: the writes of the children\<close>

lemma owned_mutation_within:
  assumes fo: "\<And>ex m. fn ex = Inr m \<Longrightarrow> m_owners (meta m) = m_owners (meta ex)"
  shows "owners_within (owner_ref_of q) (owned_mutation q fn)"
  using fo upsertOwnerRef_subset
  by (fastforce simp: owners_within_def owned_mutation_def SetOwnerReference_def split: sum.splits if_splits)

lemma svc_mutate_owners: "svc_mutate p tmpl ex = Inr m \<Longrightarrow> m_owners (meta m) = m_owners (meta ex)"
  by (auto simp: svc_mutate_def split: sum.splits)

lemma sts_mutate_owners: "sts_mutate p ds ex = Inr m \<Longrightarrow> m_owners (meta m) = m_owners (meta ex)"
  by (auto simp: sts_mutate_def split: sum.splits)

lemma same_meta_updated:
  "key_of m = key_of ex \<Longrightarrow> m_finalizers (meta m) = m_finalizers (meta ex) \<Longrightarrow>
   m_annotations (meta m) = m_annotations (meta ex) \<Longrightarrow> same_meta (updated s ex m) ex"
  by (simp add: same_meta_def key_of_def updated_def)

lemma disabled_created: "m_annotations (meta m) = None \<Longrightarrow> disabled (created s m)"
  by (simp add: disabled_def created_def)

text \<open>
  A child written by \<open>createOrUpdate\<close> for a parent \<open>q\<close> stored with the
  finalizer: new owner references are \<open>q\<close>'s, a created Service has no
  annotations (so it is off), and a Service rewritten in place keeps its
  identity, finalizers and annotations.
\<close>

lemma createOrUpdate_guard:
  assumes r: "createOrUpdate q obj fn st = (r, st')" and g: "finalizer_guard st" and wf: "store_wf st"
    and q: "lookup st (key_of q) = Some q" "fst (key_of q) = KService" "ContainsFinalizer q finalizer"
    and k: "key_of obj \<in> {svc_child_key q, sts_child_key q}"
    and o: "m_owners (meta obj) = []" and a: "m_annotations (meta obj) = None"
    and ms: "meta_stable fn" and fo: "\<And>ex m. fn ex = Inr m \<Longrightarrow> m_owners (meta m) = m_owners (meta ex)"
  shows "finalizer_guard st'"
proof -
  let ?g = "owned_mutation q fn"
  obtain r1 where c: "CreateOrUpdate obj ?g st = (r1, st')"
    using r by (cases "CreateOrUpdate obj ?g st") (auto simp: createOrUpdate_def split: sum.splits)
  have wf': "store_wf st'" using store_wf_CreateOrUpdate [OF c wf] .
  have ms': "\<And>e m. ?g e = Inr m \<Longrightarrow> m_finalizers (meta m) = m_finalizers (meta e)
               \<and> m_annotations (meta m) = m_annotations (meta e)"
    using owned_mutation_stable [OF ms] by (simp add: meta_stable_def)
  have ow: "\<And>e m. ?g e = Inr m \<Longrightarrow> set (m_owners (meta m)) \<subseteq> insert (owner_ref_of q) (set (m_owners (meta e)))"
    using owned_mutation_within [OF fo] by (simp add: owners_within_def)
  have kq: "key_of obj \<noteq> key_of q"
    using k q(2) by (auto simp: key_of_def svc_child_key_def sts_child_key_def childName_def)
  have q': "lookup st' (key_of q) = Some q"
    using confined_lookup [OF CreateOrUpdate_confined [OF c]] kq q(1) by simp
  show ?thesis
  proof (rule guard_grow [OF g wf' q' q(2,3)])
    fix ck x
    assume own: "owned_at st' ck x"
    from CreateOrUpdate_at [OF c, of ck]
    show "owned_at st ck x \<or> (ck \<in> {svc_child_key q, sts_child_key q} \<and> x = owner_ref_of q)"
    proof (elim disjE conjE exE)
      assume "lookup st' ck = lookup st ck"
      with own show ?thesis by (simp add: owned_at_def)
    next
      fix s m
      assume "ck = key_of obj" "mutate ?g ck obj = Inr m" "lookup st' ck = Some (created s m)"
      with own o k ow [of obj m] show ?thesis by (auto simp: owned_at_def dest!: mutate_Inr)
    next
      fix s m ex
      assume "ck = key_of obj" "lookup st ck = Some ex" "mutate ?g ck ex = Inr m"
        "lookup st' ck = Some (updated s ex m)"
      with own k ow [of ex m] show ?thesis by (auto simp: owned_at_def updated_def dest!: mutate_Inr)
    qed (use own in \<open>simp add: owned_at_def\<close>)
  next
    fix k p
    assume l: "lookup st' k = Some p" and kk: "fst k = KService" and en: "\<not> disabled p"
    from CreateOrUpdate_at [OF c, of k]
    show "ContainsFinalizer p finalizer \<or> (\<exists>c. lookup st k = Some c \<and> same_meta p c \<and> key_of c = k)"
    proof (elim disjE conjE exE)
      assume "lookup st' k = lookup st k"
      with l key_of_wf [OF wf] show ?thesis by (metis same_meta_refl)
    next
      fix s m
      assume "mutate ?g k obj = Inr m" "lookup st' k = Some (created s m)"
      with l en a ms' [of obj m] show ?thesis by (auto dest!: mutate_Inr simp: disabled_created)
    next
      fix s m ex
      assume ex: "lookup st k = Some ex" and mu: "mutate ?g k ex = Inr m" and u: "lookup st' k = Some (updated s ex m)"
      have "same_meta p ex"
        using l u ms' [OF mutate_Inr [OF mu]] mutate_key [OF mu] key_of_wf [OF wf ex]
        by (auto intro: same_meta_updated)
      with ex key_of_wf [OF wf ex] show ?thesis by blast
    qed (use l in simp)
  qed
qed

lemma parent_not_child:
  "fst (key_of q) = KService \<Longrightarrow> key_of q \<noteq> svc_child_key q \<and> key_of q \<noteq> sts_child_key q"
  by (auto simp: key_of_def svc_child_key_def sts_child_key_def childName_def)

lemma reconcileService_guard:
  assumes r: "reconcileService tp q st = (r, st')" and g: "finalizer_guard st" and wf: "store_wf st"
    and q: "lookup st (key_of q) = Some q" "fst (key_of q) = KService" "ContainsFinalizer q finalizer"
  shows "finalizer_guard st'"
proof (cases "svc_yaml tp")
  case (Inl e)
  with r g show ?thesis by (simp add: reconcileService_def)
next
  case (Inr tmpl)
  with r have c: "createOrUpdate q (svc_orig q) (svc_mutate q tmpl) st = (r, st')" by (simp add: reconcileService_def)
  show ?thesis
    by (rule createOrUpdate_guard [OF c g wf q _ _ _ svc_mutate_stable svc_mutate_owners])
      (simp, simp_all add: svc_orig_def new_meta_def)
qed

lemma reconcileStatefulSet_guard:
  assumes r: "reconcileStatefulSet tp q st = (r, st')" and g: "finalizer_guard st" and wf: "store_wf st"
    and q: "lookup st (key_of q) = Some q" "fst (key_of q) = KService" "ContainsFinalizer q finalizer"
  shows "finalizer_guard st'"
proof (cases "\<exists>t ds. sts_yaml tp = Inr t \<and> sts_desired q t = Inr ds")
  case False
  with r g show ?thesis by (auto simp: reconcileStatefulSet_def split: sum.splits)
next
  case True
  then obtain t ds where "sts_yaml tp = Inr t" "sts_desired q t = Inr ds" by blast
  with r have c: "createOrUpdate q (sts_orig q) (sts_mutate q ds) st = (r, st')"
    by (simp add: reconcileStatefulSet_def)
  show ?thesis
    by (rule createOrUpdate_guard [OF c g wf q _ _ _ sts_mutate_stable sts_mutate_owners])
      (simp, simp_all add: sts_orig_def new_meta_def)
qed

lemma deployTailscale_guard:
  assumes r: "deployTailscale tp q st = (r, st')" and g: "finalizer_guard st" and wf: "store_wf st"
    and q: "lookup st (key_of q) = Some q" "fst (key_of q) = KService" "ContainsFinalizer q finalizer"
  shows "finalizer_guard st'"
proof -
  obtain r1 s1 where a: "reconcileService tp q st = (r1, s1)" by (cases "reconcileService tp q st")
  have g1: "finalizer_guard s1" using reconcileService_guard [OF a g wf q] .
  show ?thesis
  proof (cases r1)
    case (Inl e)
    with r a g1 show ?thesis by (simp add: deployTailscale_def)
  next
    case (Inr u)
    with r a have b: "reconcileStatefulSet tp q s1 = (r, st')" by (simp add: deployTailscale_def)
    have wf1: "store_wf s1" using a wf by (auto simp: reconcileService_def split: sum.splits dest: store_wf_createOrUpdate)
    have "lookup s1 (key_of q) = Some q"
      using confined_lookup [OF reconcileService_confined [OF a]] parent_not_child [OF q(2)] q(1) by simp
    from reconcileStatefulSet_guard [OF b g1 wf1 this q(2,3)] show ?thesis .
  qed
qed

section \<open>Lemmas: one pass\<close>

text \<open>A successful update of an object with finalizers leaves what it returned stored under its key.\<close>

lemma client_Update_stored:
  assumes u: "client_Update ob s = (Inr q, s')" and f: "m_finalizers (meta ob) \<noteq> []"
  shows "lookup s' (key_of ob) = Some q"
  using u f by (cases rule: client_Update_cases) (auto simp: lookup_def)

lemma AddFinalizer_nonempty: "m_finalizers (meta (AddFinalizer ob f)) \<noteq> []"
  using ContainsFinalizer_AddFinalizer [of ob f] by (auto simp: ContainsFinalizer_def)

lemma Reconcile_guard:
  assumes wf: "store_wf st" and r: "Reconcile tp req st = (r, st')" and g: "finalizer_guard st"
  shows "finalizer_guard st'"
using r proof (cases rule: Reconcile_cases)
  case (get_fail e)
  with g show ?thesis by (auto dest: client_Get_trace)
next
  case (teardown p s1)
  have s1: "s1 = tick (CGet (KService, req)) True st" using teardown(1) by (auto dest: client_Get_trace)
  have l: "lookup s1 (key_of (RemoveFinalizer p finalizer)) = Some p"
    using client_Get_Inr [OF teardown(1)] parent_of_get [OF wf teardown(1)] s1 by simp
  from handleDelete_run [OF teardown(3)] show ?thesis
  proof
    assume "st' = s1"
    with g s1 show ?thesis by simp
  next
    assume "\<exists>r'. client_Update (RemoveFinalizer p finalizer) s1 = (r', st')"
    then obtain r' where u: "client_Update (RemoveFinalizer p finalizer) s1 = (r', st')" ..
    show ?thesis
      by (rule client_Update_guard [OF u _ l]) (use g s1 teardown(2) in \<open>simp_all add: disabled_def\<close>)
  qed
next
  case (fin_fail p s1 e)
  have s1: "s1 = tick (CGet (KService, req)) True st" using fin_fail(1) by (auto dest: client_Get_trace)
  have l: "lookup s1 (key_of (AddFinalizer p finalizer)) = Some p"
    using client_Get_Inr [OF fin_fail(1)] parent_of_get [OF wf fin_fail(1)] s1 by simp
  show ?thesis by (rule client_Update_guard [OF fin_fail(3) _ l]) (simp_all add: g s1)
next
  case (deploy p s1 p' s2)
  have s1: "s1 = tick (CGet (KService, req)) True st" using deploy(1) by (auto dest: client_Get_trace)
  have kp: "key_of p = (KService, req)" using parent_of_get [OF wf deploy(1)] .
  have l: "lookup s1 (key_of (AddFinalizer p finalizer)) = Some p"
    using client_Get_Inr [OF deploy(1)] kp s1 by simp
  have g2: "finalizer_guard s2" by (rule client_Update_guard [OF deploy(3) _ l]) (simp_all add: g s1)
  have wf1: "store_wf s1" using wf s1 by simp
  have wf2: "store_wf s2" using store_wf_Update [OF deploy(3) wf1] .
  have kp': "key_of p' = (KService, req)" using client_Update_Inr_key [OF wf1 deploy(3)] kp by simp
  have l2: "lookup s2 (key_of p') = Some p'"
    using client_Update_stored [OF deploy(3) AddFinalizer_nonempty] kp kp' by simp
  have f2: "ContainsFinalizer p' finalizer"
    using finalizer_stored [OF deploy(3) ContainsFinalizer_AddFinalizer] l2 kp kp' by auto
  show ?thesis using deployTailscale_guard [OF deploy(4) g2 wf2 l2 _ f2] kp' by simp
qed

section \<open>Claim\<close>

text \<open>
  C7. Finalizer guard along every run: starting from a well-formed store in
  which every enabled Service one of whose children \<open><name>-tailscale\<close>
  carries its owner reference holds the finalizer, every store reached by
  any sequence of passes (any requests, any order, any faults) has the same
  property. A child is only ever written with a parent's owner reference after
  the Update that persisted the finalizer on that parent succeeded; the
  finalizer is only removed from a service that is off.
\<close>

theorem finalizer_guard_run:
  assumes run: "operator_run tp st st'" and wf: "store_wf st" and g: "finalizer_guard st"
  shows "finalizer_guard st'"
proof -
  from run wf g have "store_wf st' \<and> finalizer_guard st'"
  proof (induction rule: operator_run.induct)
    case (start s)
    then show ?case by simp
  next
    case (pass s0 s req r s')
    then show ?case by (blast intro: Reconcile_wf Reconcile_guard)
  qed
  then show ?thesis by simp
qed

end
