(* ===== verification/Adoption.thy ===== *)
theory Adoption
  imports Refinement
begin

text \<open>
  What a pass does to an object it did not create. The children are found by
  name only (\<open>controllerutil.CreateOrUpdate\<close> gets \<open><name>-tailscale\<close> and
  mutates whatever is stored there), and \<open>SetOwnerReference\<close> adds an owner
  reference to any object. So a Service the user created under the name
  \<open><name>-tailscale\<close> before enabling \<open><name>\<close> is taken over: its spec is
  replaced by the routing spec, its selector label set, and the parent added to
  its owners; with no other owner, the garbage collector then deletes it
  together with the parent (\<^theory_text>\<open>Collector\<close>).
\<close>

section \<open>Lemmas\<close>

lemma deploy_spec_Inr:
  assumes d: "desired tp p = Inr (s1, s2)"
  shows "deploy_spec tp p A =
     (Inr (), upsert_spec (sts_child_key p) (aobj_of (sts_orig p)) (child_upd p (StsSpec s2))
                (upsert_spec (svc_child_key p) (aobj_of (svc_orig p)) (child_upd p (SvcSpec s1)) A))"
proof -
  obtain tmpl t where "svc_yaml tp = Inr tmpl" "desired_svc_spec p tmpl = Inr s1"
    "sts_yaml tp = Inr t" "sts_desired p t = Inr s2"
    using d by (rule desired_Inr)
  then show ?thesis by (simp add: deploy_spec_def)
qed

text \<open>An enabling pass stores at the routing service's key the closure applied to what was there.\<close>

lemma enable_svc_child_view:
  assumes h: "healthy st" and wf: "store_wf st" and p: "lookup st (KService, req) = Some p"
    and en: "\<not> disabled p" and d: "desired tp p = Inr (s1, s2)" and c: "children_labelled st p"
    and f: "lookup st (svc_child_key p) = Some c0"
  shows "\<exists>st'. Reconcile tp req st = (Inr (), st')
     \<and> view st' (svc_child_key p) = Some (child_upd p (SvcSpec s1) (aobj_of c0))"
proof -
  have kp: "key_of p = (KService, req)" using parent_key [OF wf p] by simp
  have "map_prod id view (Reconcile tp req st) = reconcile_spec tp p (view st)"
    by (rule Reconcile_view [OF h wf p c])
  moreover have "view st (svc_child_key p) = Some (aobj_of c0)" using f by (simp add: view_def)
  moreover have "key_of p \<noteq> svc_child_key p" using kp child_keys_of_key [OF kp] by (cases req) simp
  ultimately show ?thesis using en d
    by (cases "Reconcile tp req st") (simp add: reconcile_spec_def deploy_spec_Inr upsert_spec_def)
qed

section \<open>Claim\<close>

text \<open>
  C34. Take-over of an existing Service: when an object is already stored
  under the routing service's name \<open><name>-tailscale\<close> (whoever created it),
  an enabling pass succeeds and rewrites that object in place: it keeps its
  annotations, finalizers and other labels, but its spec becomes the routing
  spec, its \<open>svc\<close> label the parent's name, and the parent is added to its
  owner references. Nothing checks that the operator created it.
\<close>

theorem service_adopted:
  assumes h: "healthy st" and wf: "store_wf st" and p: "lookup st (KService, req) = Some p"
    and en: "\<not> disabled p" and d: "desired tp p = Inr (s1, s2)" and c: "children_labelled st p"
    and f: "lookup st (svc_child_key p) = Some c0"
  shows "\<exists>st' c'. Reconcile tp req st = (Inr (), st') \<and> lookup st' (svc_child_key p) = Some c'
     \<and> gm_get (m_annotations (meta c')) = gm_get (m_annotations (meta c0))
     \<and> m_finalizers (meta c') = m_finalizers (meta c0)
     \<and> gm_get (m_labels (meta c')) = (gm_get (m_labels (meta c0)))(''svc'' \<mapsto> m_name (meta p))
     \<and> m_owners (meta c') = upsertOwnerRef (owner_ref_of p) (m_owners (meta c0))
     \<and> kspec_eq (spec c') (SvcSpec s1)"
proof -
  obtain st' where r: "Reconcile tp req st = (Inr (), st')"
    and v: "view st' (svc_child_key p) = Some (child_upd p (SvcSpec s1) (aobj_of c0))"
    using enable_svc_child_view [OF h wf p en d c f] by blast
  obtain c' where l: "lookup st' (svc_child_key p) = Some c'"
    and a: "aobj_of c' = child_upd p (SvcSpec s1) (aobj_of c0)"
    using view_Some [OF v] by blast
  have "kspec_eq (spec c') (SvcSpec s1)"
    using arg_cong [OF a, of a_spec] by (simp add: aobj_of_def child_upd_def kspec_eq_view)
  with r l a show ?thesis by (auto simp: aobj_of_def child_upd_def)
qed

end
