(* ===== verification/Cost.thy ===== *)
theory Cost
  imports Passes
begin

text \<open>
  The load one pass puts on the API server. Every client call increments the
  call counter of the store and every write issues one resource version, so
  \<open>calls\<close> counts the requests of a pass and \<open>rv_next\<close> its writes. A pass
  makes at most six requests (the parent's Get and Update, and a Get plus a
  Create or Update for each child) and at most three writes, whatever fails.
\<close>

section \<open>Definitions\<close>

text \<open>From \<open>st\<close> to \<open>st'\<close>, at most \<open>a\<close> requests and at most \<open>b\<close> writes.\<close>

definition cost :: "nat \<Rightarrow> nat \<Rightarrow> store \<Rightarrow> store \<Rightarrow> bool" where
  "cost a b st st' \<longleftrightarrow> calls st \<le> calls st' \<and> calls st' \<le> calls st + a
     \<and> rv_next st \<le> rv_next st' \<and> rv_next st' \<le> rv_next st + b"

section \<open>Lemmas\<close>

lemma cost_refl [simp]: "cost a b st st"
  by (simp add: cost_def)

lemma cost_trans: "cost a b s1 s2 \<Longrightarrow> cost c d s2 s3 \<Longrightarrow> cost (a + c) (b + d) s1 s3"
  by (simp add: cost_def)

lemma cost_mono: "cost a b s1 s2 \<Longrightarrow> a \<le> a' \<Longrightarrow> b \<le> b' \<Longrightarrow> cost a' b' s1 s2"
  by (simp add: cost_def)

lemma cost_tick [simp]: "cost (Suc 0) 0 st (tick c ok st)"
  by (simp add: cost_def)

lemma client_Get_cost: "client_Get k st = (r, st') \<Longrightarrow> cost 1 0 st st'"
  by (auto dest!: client_Get_trace)

lemma client_Update_cost: "client_Update ob st = (r, st') \<Longrightarrow> cost 1 1 st st'"
  by (erule client_Update_cases) (simp_all add: cost_def)

lemma client_Create_cost: "client_Create ob st = (r, st') \<Longrightarrow> cost 1 1 st st'"
  by (cases "fault st (calls st)"; cases "lookup st (key_of ob)") (auto simp: store_simps cost_def)

lemma CreateOrUpdate_cost:
  assumes r: "CreateOrUpdate obj f st = (r, st')" shows "cost 2 1 st st'"
proof (cases "fault st (calls st)")
  case True
  with r show ?thesis by (auto simp: store_simps cost_def)
next
  case nf: False
  show ?thesis
  proof (cases "lookup st (key_of obj)")
    case None
    let ?s0 = "tick (CGet (key_of obj)) False st"
    show ?thesis
    proof (cases "mutate f (key_of obj) obj")
      case (Inr m)
      obtain r2 s2 where c: "client_Create m ?s0 = (r2, s2)" by (cases "client_Create m ?s0")
      have "st' = s2" using r nf None Inr c by (cases r2) (auto simp: CreateOrUpdate_absent)
      with cost_trans [OF cost_tick client_Create_cost [OF c]] show ?thesis by (simp add: cost_def)
    qed (use r nf None in \<open>auto simp: CreateOrUpdate_absent cost_def\<close>)
  next
    case (Some ex)
    let ?s1 = "tick (CGet (key_of obj)) True st"
    show ?thesis
    proof (cases "mutate f (key_of obj) ex")
      case (Inr m)
      obtain r2 s2 where u: "client_Update m ?s1 = (r2, s2)" by (cases "client_Update m ?s1")
      have "st' = ?s1 \<or> st' = s2"
        using r nf Some Inr u by (cases r2) (auto simp: CreateOrUpdate_present split: if_splits)
      with cost_trans [OF cost_tick client_Update_cost [OF u]] show ?thesis by (auto simp: cost_def)
    qed (use r nf Some in \<open>auto simp: CreateOrUpdate_present cost_def\<close>)
  qed
qed

lemma createOrUpdate_cost: "createOrUpdate owner obj fn st = (r, st') \<Longrightarrow> cost 2 1 st st'"
  by (cases "CreateOrUpdate obj (owned_mutation owner fn) st")
    (auto simp: createOrUpdate_def split: sum.splits dest: CreateOrUpdate_cost)

lemma deployTailscale_cost:
  assumes r: "deployTailscale tp p st = (r, st')" shows "cost 4 2 st st'"
proof -
  obtain r1 s1 where a: "reconcileService tp p st = (r1, s1)" by (cases "reconcileService tp p st")
  have c1: "cost 2 1 st s1"
    using a by (auto simp: reconcileService_def split: sum.splits dest: createOrUpdate_cost)
  show ?thesis
  proof (cases r1)
    case (Inl e)
    with r a c1 show ?thesis by (auto simp: deployTailscale_def intro: cost_mono)
  next
    case (Inr u)
    with r a have "reconcileStatefulSet tp p s1 = (r, st')" by (simp add: deployTailscale_def)
    then have "cost 2 1 s1 st'"
      by (auto simp: reconcileStatefulSet_def split: sum.splits dest: createOrUpdate_cost)
    from cost_trans [OF c1 this] show ?thesis by (simp add: cost_def)
  qed
qed

lemma handleDelete_cost: "handleDelete p st = (r, st') \<Longrightarrow> cost 1 1 st st'"
  by (drule handleDelete_run) (auto dest: client_Update_cost)

section \<open>Claim\<close>

text \<open>
  C35. Bounds on the load of a pass: whatever fails, one pass makes at least
  one and at most six requests to the API server and at most three writes (the
  parent and the two children); the resource-version counter only grows.
\<close>

theorem Reconcile_cost:
  assumes r: "Reconcile tp req st = (r, st')"
  shows "calls st < calls st' \<and> calls st' \<le> calls st + 6
     \<and> rv_next st \<le> rv_next st' \<and> rv_next st' \<le> rv_next st + 3"
proof -
  have "Suc (calls st) \<le> calls st' \<and> cost 6 3 st st'"
  using r proof (cases rule: Reconcile_cases)
    case (get_fail e)
    then show ?thesis by (auto dest!: client_Get_trace simp: cost_def)
  next
    case (teardown p s1)
    have "s1 = tick (CGet (KService, req)) True st" using teardown(1) by (auto dest: client_Get_trace)
    with handleDelete_cost [OF teardown(3)] show ?thesis by (auto simp: cost_def)
  next
    case (fin_fail p s1 e)
    have "s1 = tick (CGet (KService, req)) True st" using fin_fail(1) by (auto dest: client_Get_trace)
    with client_Update_cost [OF fin_fail(3)] show ?thesis by (auto simp: cost_def)
  next
    case (deploy p s1 p' s2)
    have "s1 = tick (CGet (KService, req)) True st" using deploy(1) by (auto dest: client_Get_trace)
    with client_Update_cost [OF deploy(3)] deployTailscale_cost [OF deploy(4)] show ?thesis
      by (auto simp: cost_def)
  qed
  then show ?thesis by (auto simp: cost_def)
qed

end
