(* ===== verification/Disable.thy ===== *)
theory Disable
  imports Collector Recovery
begin

text \<open>
  Switching a service off without deleting it (spec section 9, open question).
  A pass for a disabled service only goes through \<open>handleDelete\<close>, which
  writes nothing but the parent (at most its finalizer). The parent stays, with
  its name and UID, so the owner references of its children still resolve and
  the garbage collector keeps them: the children stay, unmanaged, until the
  parent itself is deleted.
\<close>

section \<open>Lemmas\<close>

lemma Reconcile_disabled_parent:
  assumes wf: "store_wf st" and p: "lookup st (KService, req) = Some p" and dis: "disabled p"
    and nd: "m_deletion (meta p) = None" and r: "Reconcile tp req st = (r, st')"
  shows "(\<exists>p1. lookup st' (KService, req) = Some p1 \<and> same_parent p1 p) \<and> confined {(KService, req)} st st'"
using r proof (cases rule: Reconcile_cases)
  case (get_fail e)
  with p client_Get_confined [OF get_fail(1)] show ?thesis by (auto dest: client_Get_trace)
next
  case (teardown p0 s1)
  have s1: "s1 = tick (CGet (KService, req)) True st" using teardown(1) by (auto dest: client_Get_trace)
  have p0: "p0 = p" using client_Get_Inr [OF teardown(1)] p by simp
  have kp: "key_of p = (KService, req)" using parent_key [OF wf p] by simp
  have c1: "confined {(KService, req)} st s1" using client_Get_confined [OF teardown(1)] .
  have c2: "confined {(KService, req)} s1 st'" using handleDelete_confined [OF teardown(3)] p0 kp by simp
  have l1: "lookup s1 (key_of p) = Some p" using p s1 kp by simp
  have "\<exists>p1. lookup st' (KService, req) = Some p1 \<and> same_parent p1 p"
    using handleDelete_run [OF teardown(3)]
  proof
    assume "st' = s1"
    with l1 kp show ?thesis by auto
  next
    assume "\<exists>r'. client_Update (RemoveFinalizer p0 finalizer) s1 = (r', st')"
    then obtain r' where u: "client_Update (RemoveFinalizer p finalizer) s1 = (r', st')" using p0 by blast
    show ?thesis using update_same_parent [OF u l1] nd kp by (simp add: same_parent_def)
  qed
  with confined_trans [OF c1 c2] show ?thesis by simp
next
  case (fin_fail p0 s1 e)
  with p dis show ?thesis by (auto dest: client_Get_Inr)
next
  case (deploy p0 s1 p' s2)
  with p dis show ?thesis by (auto dest: client_Get_Inr)
qed

section \<open>Claim\<close>

text \<open>
  C36. Disabling leaves the children: for a provisioned service that is
  switched off without being deleted, a pass, whatever fails, leaves both
  children as they were, and a sweep of the garbage collector afterwards keeps
  them, since the parent is still there to own them. Nothing removes them
  until the parent is deleted.
\<close>

theorem disable_keeps_children:
  assumes wf: "store_wf st" and p: "lookup st (KService, req) = Some p" and dis: "disabled p"
    and nd: "m_deletion (meta p) = None" and pr: "provisioned tp p st"
    and r: "Reconcile tp req st = (r, st')"
  shows "lookup (gc_sweep st') (svc_child_key p) = lookup st (svc_child_key p)
     \<and> lookup (gc_sweep st') (sts_child_key p) = lookup st (sts_child_key p)"
proof -
  obtain p1 where l1: "lookup st' (KService, req) = Some p1" and sp: "same_parent p1 p"
    and cf: "confined {(KService, req)} st st'"
    using Reconcile_disabled_parent [OF wf p dis nd r] by blast
  have req: "req = (m_namespace (meta p), m_name (meta p))" using parent_key [OF wf p] by simp
  have ks: "lookup st' (svc_child_key p) = lookup st (svc_child_key p)"
    "lookup st' (sts_child_key p) = lookup st (sts_child_key p)"
    using confined_lookup [OF cf] req by simp_all
  have pr': "provisioned tp p st'" using pr ks by (simp add: provisioned_def cong: sum.case_cong prod.case_cong)
  have w': "store_wf st'" using Reconcile_wf [OF wf r] .
  have "resolve_owner st' (m_namespace (meta p1)) (owner_ref_of p) = Some p1"
    using sp by (intro resolve_owner_same [OF w' l1]) (simp_all add: same_parent_def)
  then have "resolve_owner st' (m_namespace (meta p)) (owner_ref_of p) \<noteq> None"
    using sp by (simp add: same_parent_def)
  with gc_keeps_provisioned [OF w' pr'] ks show ?thesis by simp
qed

end
