(* ===== verification/Spec2Isabelle.thy ===== *)
theory Spec2Isabelle
  imports Convergence Failures Cluster Startup Queue Collector Interleave DnsNames Concurrency Recovery Guard Adoption Cost Disable
begin

text \<open>
  \<^bold>\<open>A verification model of the tailscale-operator reconciler.\<close>

  The program (\<open>src/main.go\<close>, \<open>src/pkg/controller/controller.go\<close>,
  \<open>src/pkg/controller/tailscale.go\<close>) is a Kubernetes controller: for every
  \<open>Service\<close> annotated \<open>tailscale.maisem.dev/enable: true\<close> it keeps a
  finalizer on the service and creates or updates two children named
  \<open><name>-tailscale\<close>, a \<open>Service\<close> built from \<open>svc.yaml\<close> and a
  \<open>StatefulSet\<close> built from \<open>sts.yaml\<close> whose first container gets
  \<open>DEST_IP\<close> = the parent's cluster IP. A disabled or deleted service goes to
  \<open>handleDelete\<close>. \<open>New\<close> registers the watches that turn object events
  into reconcile requests; \<open>main\<close> starts the manager.

  \<^bold>\<open>Theories and what they model.\<close>
  \<^item> \<open>Prelude\<close>: the error values (API errors, transient faults, parse errors,
    Go panics), Go maps of strings with their nil state (\<open>gomap\<close>: reading nil
    gives nothing, writing nil panics), the result type of store-threading
    operations and its bind \<open>rbind\<close>.
  \<^item> \<open>Objects\<close>: object metadata, owner references, the Service and
    StatefulSet specs, \<open>equality.Semantic.DeepEqual\<close>, and the
    \<open>controllerutil\<close> finalizer and owner-reference helpers
    (controller-runtime, modelled after the library).
  \<^item> \<open>Naming\<close>: the constants of controller.go and tailscale.go,
    \<open>strings.ToLower\<close> as the enable check uses it, \<open>childName\<close> (the
    \<open>Sprintf("%s-tailscale")\<close> of both reconcile functions) and
    \<open>hostName\<close>. Claims C15, C16.
  \<^item> \<open>Env\<close>: \<open>addOrUpdateEnv\<close>, its loop as structural recursion, a
    split-at-first-match reference and the last-entry-wins resolution of
    Kubernetes. Claims C12 to C14.
  \<^item> \<open>Store\<close>: the API server as the client sees it (\<open>Get\<close>,
    \<open>Create\<close>, \<open>Update\<close> with optimistic concurrency, a skipped no-op
    update, deletion on the last finalizer), a fault schedule that can make any
    call fail, a log of every call, \<open>controllerutil.CreateOrUpdate\<close>, and the
    \<open>createOrUpdate\<close> wrapper of tailscale.go.
  \<^item> \<open>Builder\<close>: the decoded templates, the patch of the statefulset
    template (\<open>sts_desired\<close>), the literal children and the mutate closures of
    \<open>reconcileService\<close> and \<open>reconcileStatefulSet\<close>. Claims C10, C11, C17.
  \<^item> \<open>Controller\<close>: \<open>reconcileService\<close>, \<open>reconcileStatefulSet\<close>,
    \<open>deployTailscale\<close>, \<open>handleDelete\<close> and \<open>Reconcile\<close>, each a function
    from the store to a result and the store it leaves, composed as the Go code
    composes them. Claim C1 (the enable path).
  \<^item> \<open>Frame\<close>: the footprint relation \<open>confined\<close> (which keys an operation
    may change and log) and the footprint of every client call and wrapper.
  \<^item> \<open>Passes\<close>: the four ways a pass can go (\<open>Reconcile_cases\<close>) and the
    properties of passes under any fault schedule: C2 order of writes (the
    parent is stored with the finalizer before any child call), C6 footprint, C3 and C4 teardown, C8, C9, C18.
  \<^item> \<open>Convergence\<close>: a second pass over a converged parent writes nothing (C5).
  \<^item> \<open>Failures\<close>: error paths after the finalizer: template error (C19),
    short UID (C20).
  \<^item> \<open>Watch\<close>: the watches of \<open>New\<close> as the map from an event on an
    object to the requests it enqueues (C21).
  \<^item> \<open>Cluster\<close>: runs of the operator, the inductive closure
    \<open>operator_run\<close> of passes for any requests in any order under any faults
    (what the work queue may deliver); the finding that a deleted service
    without the device-ID annotation is never released (C22), by rule
    induction.
  \<^item> \<open>Guard\<close>: the finalizer invariant of the specification
    (\<open>finalizer_guard\<close>): every enabled Service one of whose children
    carries its owner reference holds the finalizer. Each client call and
    each wrapper preserves it in context (a child is written with the owner
    reference of a parent already stored with the finalizer; a created Service
    has no annotations, so it is off; a Service rewritten in place keeps its
    identity, finalizers and annotations); C7 carries it along every run by
    rule induction. It depends on the order of the writes in \<open>Reconcile\<close>:
    children written before the finalizer Update would break it as soon as
    that Update fails.
  \<^item> \<open>Startup\<close>: \<open>main\<close> of main.go, with the manager constructor, the
    registration and \<open>Start\<close> as parameters (C23).
  \<^item> \<open>Refinement\<close>: an abstract state (each key mapped to labels and
    annotations as functions, finalizers, deletion, owner references and the
    spec as \<open>DeepEqual\<close> compares it; resource versions, UIDs and the call log
    forgotten) and an abstract pass written as the code's sequence of writes:
    \<open>teardown_spec\<close>, or \<open>add_finalizer_spec\<close> then \<open>deploy_spec\<close>, whose
    \<open>upsert_spec\<close> is create-or-update on the abstract state. C24 proves that
    \<open>Reconcile\<close> refines it on every branch, errors included: the abstraction
    of the concrete result is the abstract result.
  \<^item> \<open>Queue\<close>: the work queue of controller-runtime around the passes:
    \<open>process\<close> serves the first request, enqueues the requests the watches
    of \<open>Watch\<close> derive from every object the pass changed, and requeues a
    request whose pass failed; the queue holds each request once. C25: for a
    fresh enabled parent the loop drains within three passes; C29: with an
    unreadable \<open>svc.yaml\<close> it never drains, whatever the fuel; C37: a
    request whose parent is not stored is requeued for ever (NotFound is
    returned as an error).
  \<^item> \<open>Collector\<close>: the garbage collector of the API server, on which the
    operator relies to delete the children (it only tags them with owner
    references): owner references resolved by kind, namespace, name and UID,
    and a sweep that deletes objects whose owners are all gone. C26: the
    reference \<open>createOrUpdate\<close> writes resolves back to the stored parent;
    C27: the children an enabling pass writes survive the next sweep; C28: a
    teardown that releases the parent lets the next sweep delete the children.
  \<^item> \<open>DnsNames\<close>: the name types of the API (DNS-1035 label for a
    Service name, DNS-1123 label for a pod hostname). C31: the child name and
    the hostname built from a valid Service name have their types exactly
    when they fit in 63 characters, i.e. for parent names of at most 53 and 54
    characters.
  \<^item> \<open>Interleave\<close>: a pass interleaved with another client's write:
    \<open>reconcile_fetched\<close> is the part of \<open>Reconcile\<close> after the \<open>Get\<close>
    and \<open>interleaved\<close> puts the other write between the two. C30: every
    write of the operator is conditional on the version it read, so a pass
    working on a stale read writes nothing and no concurrent edit is lost.
  \<^item> \<open>Concurrency\<close>: the abstract pass reads and writes only the
    parent and its two children (\<open>spec_keys\<close>), so abstract passes for
    parents with disjoint keys commute; with the refinement lemma of
    \<open>Refinement\<close> this gives C32: passes for two such parents give the same
    results and the same visible store in either order.
  \<^item> \<open>Recovery\<close>: properties of stored objects kept by every write
    (\<open>obj_at\<close>), the parent's identity through a failing pass
    (\<open>same_parent\<close>), and retries: C33, after any number of passes under
    any faults (a crash is a schedule failing every later call), the first
    fault-free pass provisions.
  \<^item> \<open>Adoption\<close>: C34, an object already stored under the routing
    service's name is rewritten in place and gets the parent as owner, whoever
    created it.
  \<^item> \<open>Cost\<close>: C35, a pass makes between one and six requests and at most
    three writes, whatever fails (\<open>calls\<close> and \<open>rv_next\<close> of the store
    count them).
  \<^item> \<open>Disable\<close>: C36, switching a service off without deleting it leaves its
    children, and the garbage collector keeps them while the parent exists.
  \<^item> this theory: the scenario of the specification (service \<open>web\<close>,
    UID \<open>abcd1234-...\<close>, cluster IP \<open>10.0.0.5\<close>) and its variants, and one
    witness per claim with hypotheses, evaluated by \<open>simp\<close>.

  \<^bold>\<open>Modelling decisions.\<close>
  A Go panic is the error \<open>EPanic\<close>: it ends the pass like a returned error
  (controller-runtime of this era does not recover it; the process would crash,
  which ends the pass as well). The API server is modelled by the behaviour the
  reconciler depends on; the informer cache is not modelled (a read returns the
  stored object; a stale read shows up as a failed update, which the fault
  schedule covers). A pass is one call of \<open>Reconcile\<close>; the work queue
  serialises passes per key; passes for different keys are composed as whole
  passes (C32), not call by call. A crash of the process during a pass is the
  fault schedule failing every later call of that pass, and recovery is the
  schedule being cleared (C33).
  The loop of the work queue is the one loop that need not end (a failing
  request is requeued forever), so \<open>process\<close> takes fuel, the number of
  passes it may run, and is \<open>None\<close> when the queue has not drained; C25 shows
  that three passes are enough for a fresh parent: one that provisions, and
  one for each of the two requests that pass enqueues (the parent, whose
  finalizer was written, and the new routing service), neither of which
  writes anything.
  The template files are the decoded values they yield, or a parse error.
  Strings are byte strings; \<open>ToLower\<close> lowers ASCII, which decides the
  comparison with \<open>"true"\<close> exactly as Go does. The only loop of the code
  itself is the range over a container's environment, a structural recursion.

  \<^bold>\<open>Not modelled.\<close> The logger set-up of \<open>main\<close> and the internals of the
  manager (its client, cache and scheme); the file system and the YAML decoder
  behind \<open>parseFile\<close>, which are parameters; the informer cache, resyncs
  and the rate limiter's delays (the queue is served in order, a failed
  request goes to its end); foreground deletion and \<open>blockOwnerDeletion\<close> of the
  garbage collector; the API server's validation of names on create (the
  store accepts any name; C31 states the name types as predicates instead);
  and the tailscale control plane (the code only reads the device-ID annotation and
  never registers or deletes a device).
\<close>

section \<open>The scenario of the specification\<close>

text \<open>
  A service \<open>web\<close> in namespace \<open>default\<close>, UID starting \<open>abcd1234\<close>,
  annotated \<open>enable: True\<close>, cluster IP \<open>10.0.0.5\<close>, alone in a healthy
  store; templates with empty selector and label maps and one container.
\<close>

definition web_svc :: kobj where
  "web_svc = \<lparr>meta = \<lparr>m_name = ''web'', m_namespace = ''default'',
       m_uid = ''abcd1234-5678-4abc-9def-0123456789ab'', m_rv = 1, m_labels = None,
       m_annotations = Some [(''tailscale.maisem.dev/enable'', ''True'')], m_finalizers = [],
       m_deletion = None, m_owners = []\<rparr>,
     spec = SvcSpec \<lparr>s_selector = Some [(''app'', ''web'')], s_clusterIP = ''10.0.0.5'', s_ports = [80]\<rparr>\<rparr>"

definition web_store :: store where
  "web_store = \<lparr>objs = [((KService, ''default'', ''web''), web_svc)], rv_next = 2, calls = 0, trace = [],
     fault = (\<lambda>_. False), mint = (\<lambda>n. ''11111111-2222-4333-8444-555555555555'')\<rparr>"

definition ts_container :: container where
  "ts_container = \<lparr>c_name = ''tailscale'', c_image = ''tailscale/tailscale'',
     c_env = [\<lparr>e_name = ''DEST_IP'', e_value = [], e_valueFrom = Some (FieldRef ''status.podIP'')\<rparr>]\<rparr>"

definition web_svc_template :: svc_spec where
  "web_svc_template = \<lparr>s_selector = Some [], s_clusterIP = [], s_ports = [41641]\<rparr>"

definition web_sts_template :: sts_spec where
  "web_sts_template = \<lparr>t_replicas = Some 1, t_selector = Some \<lparr>matchLabels = Some []\<rparr>,
     t_serviceName = [], t_template = \<lparr>pt_labels = Some [],
     pt_spec = \<lparr>p_hostname = [], p_containers = [ts_container]\<rparr>\<rparr>\<rparr>"

definition web_templates :: templates where
  "web_templates = \<lparr>svc_yaml = Inr web_svc_template, sts_yaml = Inr (''tailscale'', web_sts_template)\<rparr>"

text \<open>The templates when \<open>svc.yaml\<close> cannot be read.\<close>

definition broken_templates :: templates where
  "broken_templates = web_templates\<lparr>svc_yaml := Inl (EParse ''open svc.yaml: no such file or directory'')\<rparr>"

text \<open>A service whose UID is too short for \<open>hostName\<close>, and a twin of \<open>web\<close>
  whose UID shares its first 8 characters.\<close>

definition web_short :: kobj where
  "web_short = web_svc\<lparr>meta := (meta web_svc)\<lparr>m_uid := ''abc''\<rparr>\<rparr>"

definition web_twin :: kobj where
  "web_twin = web_svc\<lparr>meta := (meta web_svc)\<lparr>m_uid := ''abcd1234-0000-4000-8000-000000000000''\<rparr>\<rparr>"

text \<open>A container whose environment names \<open>DEST_IP\<close> twice.\<close>

definition dup_container :: container where
  "dup_container = ts_container\<lparr>c_env := [literal_env ''DEST_IP'' ''10.9.9.9'', literal_env ''DEST_IP'' ''10.8.8.8'']\<rparr>"

text \<open>A child left with a label of an older desired state.\<close>

definition stale_child :: kobj where
  "stale_child = \<lparr>meta = new_meta ''web-tailscale'' ''default'' (Some [(''app'', ''old''), (''svc'', ''web'')]),
     spec = SvcSpec web_svc_template\<rparr>"

text \<open>
  The same service switched off (\<open>enable: false\<close>) after it was enabled:
  it holds the finalizer, and a device-ID annotation as the spec expects once
  device registration exists.
\<close>

definition web_off :: kobj where
  "web_off = web_svc\<lparr>meta := (meta web_svc)\<lparr>
     m_annotations := Some [(''tailscale.maisem.dev/enable'', ''false''),
                            (''tailscale.maisem.dev/deviceID'', ''n1234'')],
     m_finalizers := [''tailscale.maisem.dev/finalizer'']\<rparr>\<rparr>"

text \<open>
  The enabled service after \<open>kubectl delete\<close>: deletion requested, finalizer
  held, and no device-ID annotation (no code path writes one).
\<close>

definition web_deleted :: kobj where
  "web_deleted = web_svc\<lparr>meta := (meta web_svc)\<lparr>m_deletion := Some 7,
     m_finalizers := [''tailscale.maisem.dev/finalizer'']\<rparr>\<rparr>"

text \<open>The service switched off before it was ever enabled: no finalizer.\<close>

definition web_never :: kobj where
  "web_never = web_svc\<lparr>meta := (meta web_svc)\<lparr>
     m_annotations := Some [(''tailscale.maisem.dev/enable'', ''no'')]\<rparr>\<rparr>"

text \<open>A healthy store holding one object.\<close>

definition store_of :: "kobj \<Rightarrow> store" where
  "store_of ob = web_store\<lparr>objs := [(key_of ob, ob)]\<rparr>"

text \<open>
  The converged state the specification's scenario describes: the parent holds
  the finalizer; the routing service \<open>web-tailscale\<close> selects \<open>svc=web\<close>;
  the statefulset \<open>web-tailscale\<close> runs pods with hostname
  \<open>web-abcd1234\<close> and \<open>DEST_IP=10.0.0.5\<close>; both carry the label
  \<open>svc=web\<close> and an owner reference to the parent.
\<close>

definition web_fin :: kobj where
  "web_fin = web_svc\<lparr>meta := (meta web_svc)\<lparr>m_rv := 2,
     m_finalizers := [''tailscale.maisem.dev/finalizer'']\<rparr>\<rparr>"

definition web_owner :: owner_ref where
  "web_owner = \<lparr>or_apiVersion = ''v1'', or_kind = ''Service'', or_name = ''web'',
     or_uid = ''abcd1234-5678-4abc-9def-0123456789ab'', or_controller = None\<rparr>"

definition web_route :: kobj where
  "web_route = \<lparr>meta = \<lparr>m_name = ''web-tailscale'', m_namespace = ''default'',
       m_uid = ''11111111-2222-4333-8444-555555555555'', m_rv = 3, m_labels = Some [(''svc'', ''web'')],
       m_annotations = None, m_finalizers = [], m_deletion = None, m_owners = [web_owner]\<rparr>,
     spec = SvcSpec \<lparr>s_selector = Some [(''svc'', ''web'')], s_clusterIP = [], s_ports = [41641]\<rparr>\<rparr>"

definition web_workload_spec :: sts_spec where
  "web_workload_spec = \<lparr>t_replicas = Some 1, t_selector = Some \<lparr>matchLabels = Some [(''svc'', ''web'')]\<rparr>,
        t_serviceName = ''tailscale'', t_template = \<lparr>pt_labels = Some [(''svc'', ''web'')],
        pt_spec = \<lparr>p_hostname = ''web-abcd1234'',
          p_containers = [ts_container\<lparr>c_env := [\<lparr>e_name = ''DEST_IP'', e_value = ''10.0.0.5'',
                                                  e_valueFrom = None\<rparr>]\<rparr>]\<rparr>\<rparr>\<rparr>"

definition web_workload :: kobj where
  "web_workload = \<lparr>meta = \<lparr>m_name = ''web-tailscale'', m_namespace = ''default'',
       m_uid = ''11111111-2222-4333-8444-555555555555'', m_rv = 4, m_labels = Some [(''svc'', ''web'')],
       m_annotations = None, m_finalizers = [], m_deletion = None, m_owners = [web_owner]\<rparr>,
     spec = StsSpec web_workload_spec\<rparr>"

definition web_done_store :: store where
  "web_done_store = web_store\<lparr>objs := [((KService, ''default'', ''web''), web_fin),
       ((KService, ''default'', ''web-tailscale''), web_route),
       ((KStatefulSet, ''default'', ''web-tailscale''), web_workload)], rv_next := 5\<rparr>"

text \<open>
  The switched-off service after \<open>kubectl delete\<close>, with the device-ID
  annotation, next to the two children the operator created for it.
\<close>

definition web_gone :: kobj where
  "web_gone = web_off\<lparr>meta := (meta web_off)\<lparr>m_deletion := Some 7\<rparr>\<rparr>"

definition web_gone_store :: store where
  "web_gone_store = web_done_store\<lparr>objs := [((KService, ''default'', ''web''), web_gone),
       ((KService, ''default'', ''web-tailscale''), web_route),
       ((KStatefulSet, ''default'', ''web-tailscale''), web_workload)]\<rparr>"

text \<open>A user's edit of the parent: a new label, from the version \<open>web\<close> is stored at.\<close>

definition web_edit :: kobj where
  "web_edit = web_svc\<lparr>meta := (meta web_svc)\<lparr>m_labels := Some [(''team'', ''payments'')]\<rparr>\<rparr>"

text \<open>A service with a valid 60-character name.\<close>

definition web_long :: kobj where
  "web_long = web_svc\<lparr>meta := (meta web_svc)\<lparr>
     m_name := ''payments-gateway-internal-tailscale-exposed-service-eu-west1''\<rparr>\<rparr>"

text \<open>A second enabled service \<open>api\<close> in the same namespace, stored next to \<open>web\<close>.\<close>

definition api_svc :: kobj where
  "api_svc = web_svc\<lparr>meta := (meta web_svc)\<lparr>m_name := ''api'', m_rv := 2,
     m_uid := ''feedbeef-0000-4000-8000-000000000001''\<rparr>\<rparr>"

definition two_store :: store where
  "two_store = web_store\<lparr>objs := [((KService, ''default'', ''web''), web_svc),
       ((KService, ''default'', ''api''), api_svc)], rv_next := 3\<rparr>"

text \<open>
  The scenario's store where the operator crashes after the finalizer write:
  every call from the third on (the Get of the routing service) fails.
\<close>

definition crash_store :: store where
  "crash_store = web_store\<lparr>fault := (\<lambda>i. 2 \<le> i)\<rparr>"

text \<open>
  A Service the user created as \<open>web-tailscale\<close> before enabling \<open>web\<close>: its
  own selector, cluster IP, port, label and annotation, and no owner.
\<close>

definition user_route :: kobj where
  "user_route = \<lparr>meta = \<lparr>m_name = ''web-tailscale'', m_namespace = ''default'',
       m_uid = ''99999999-8888-4777-8666-555555555555'', m_rv = 2, m_labels = Some [(''app'', ''legacy'')],
       m_annotations = Some [(''team'', ''payments'')], m_finalizers = [], m_deletion = None, m_owners = []\<rparr>,
     spec = SvcSpec \<lparr>s_selector = Some [(''app'', ''legacy'')], s_clusterIP = ''10.0.0.9'', s_ports = [8080]\<rparr>\<rparr>"

definition taken_store :: store where
  "taken_store = web_store\<lparr>objs := [((KService, ''default'', ''web''), web_svc),
       ((KService, ''default'', ''web-tailscale''), user_route)], rv_next := 3\<rparr>"

text \<open>The switched-off service, not deleted, next to the children the operator created for it.\<close>

definition off_store :: store where
  "off_store = web_done_store\<lparr>objs := [((KService, ''default'', ''web''), web_off),
       ((KService, ''default'', ''web-tailscale''), web_route),
       ((KStatefulSet, ''default'', ''web-tailscale''), web_workload)]\<rparr>"

lemmas web_defs = web_long_def web_edit_def web_gone_def web_gone_store_def web_svc_def web_store_def web_templates_def ts_container_def
  web_svc_template_def web_sts_template_def web_workload_spec_def
  broken_templates_def web_short_def web_twin_def dup_container_def stale_child_def
  web_off_def web_deleted_def web_never_def store_of_def
  web_fin_def web_owner_def web_route_def web_workload_def web_done_store_def

lemmas scenario_simps = web_defs store_wf_def obj_wf_def key_of_def lookup_def disabled_def
  enableAnnotation_def deviceIDAnnotation_def finalizer_def ToLower_true_iff ContainsFinalizer_def

lemma web_desired: "\<exists>s1 s2. desired web_templates web_svc = Inr (s1, s2)"
  by (simp add: web_defs desired_def desired_svc_spec_def sts_desired_def hostName_def
      svc_clusterIP_def addOrUpdateEnv_def destIPKey_def Let_def)

text \<open>The hypotheses of an enabling pass hold on the scenario.\<close>

lemma web_pre:
  "healthy web_store" "store_wf web_store" "lookup web_store (KService, ''default'', ''web'') = Some web_svc"
  "\<not> disabled web_svc" "children_labelled web_store web_svc"
  by (simp_all add: web_defs store_wf_def obj_wf_def key_of_def lookup_def disabled_def
      enableAnnotation_def ToLower_true_iff children_labelled_def svc_child_key_def
      sts_child_key_def childName_def)

theorem Reconcile_provisions_witness:
  "\<exists>st'. Reconcile web_templates (''default'', ''web'') web_store = (Inr (), st') \<and> store_wf st'
     \<and> provisioned web_templates web_svc st'
     \<and> (\<exists>p'. lookup st' (KService, ''default'', ''web'') = Some p' \<and> ContainsFinalizer p' finalizer)"
proof -
  obtain s1 s2 where d: "desired web_templates web_svc = Inr (s1, s2)"
    using web_desired by blast
  show ?thesis by (rule Controller.Reconcile_provisions [OF web_pre(1-4) d web_pre(5)])
qed

text \<open>The run of the first pass over the scenario, named for the witnesses.\<close>

lemma web_run:
  "Reconcile web_templates (''default'', ''web'') web_store =
     (fst (Reconcile web_templates (''default'', ''web'') web_store),
      snd (Reconcile web_templates (''default'', ''web'') web_store))"
  by simp

lemma web_store_wf: "store_wf web_store"
  by (simp add: scenario_simps)

theorem Reconcile_finalizer_first_witness:
  "\<exists>b rest. trace (snd (Reconcile web_templates (''default'', ''web'') web_store))
      = trace web_store @ (CGet (KService, ''default'', ''web''), b) # rest \<and>
     (list_all (\<lambda>c. call_key (fst c) = (KService, ''default'', ''web'')) rest
      \<or> (\<exists>rest' p'. rest = (CUpdate (KService, ''default'', ''web''), True) # rest'
            \<and> list_all (\<lambda>c. call_key (fst c) \<noteq> (KService, ''default'', ''web'')) rest'
            \<and> lookup (snd (Reconcile web_templates (''default'', ''web'') web_store)) (KService, ''default'', ''web'') = Some p'
            \<and> ContainsFinalizer p' finalizer))"
  by (rule Passes.Reconcile_finalizer_first [OF web_store_wf web_run])

theorem Reconcile_confined_witness:
  "confined (pass_keys (''default'', ''web'')) web_store
     (snd (Reconcile web_templates (''default'', ''web'') web_store))"
  by (rule Passes.Reconcile_confined [OF web_store_wf web_run])

lemma web_one_pass: "operator_run web_templates web_store (snd (Reconcile web_templates (''default'', ''web'') web_store))"
  by (rule operator_run.pass [OF operator_run.start web_run])

theorem finalizer_guard_run_witness:
  "finalizer_guard (snd (Reconcile web_templates (''default'', ''web'') web_store))"
proof -
  have g: "finalizer_guard web_store"
    by (simp add: web_defs finalizer_guard_def child_owned_def owned_at_def svc_child_key_def sts_child_key_def lookup_def)
  show ?thesis by (rule Guard.finalizer_guard_run [OF web_one_pass web_store_wf g])
qed

theorem Reconcile_teardown_witness:
  "\<exists>st'. Reconcile web_templates (''default'', ''web'') (store_of web_off) = (Inr (), st')
     \<and> (\<forall>q. lookup st' (KService, ''default'', ''web'') = Some q \<longrightarrow> \<not> ContainsFinalizer q finalizer)
     \<and> (lookup st' (KService, ''default'', ''web'') = None \<longleftrightarrow>
          m_deletion (meta web_off) \<noteq> None \<and> m_finalizers (meta (RemoveFinalizer web_off finalizer)) = [])
     \<and> (\<forall>k. k \<noteq> (KService, ''default'', ''web'') \<longrightarrow> lookup st' k = lookup (store_of web_off) k)"
proof -
  have pre: "healthy (store_of web_off)" "store_wf (store_of web_off)"
    "lookup (store_of web_off) (KService, ''default'', ''web'') = Some web_off"
    "disabled web_off" "ContainsFinalizer web_off finalizer"
    "gm_get (m_annotations (meta web_off)) deviceIDAnnotation = Some ''n1234''"
    by (simp_all add: scenario_simps)
  show ?thesis by (rule Passes.Reconcile_teardown [OF pre])
qed

theorem Reconcile_finalizer_kept_witness:
  "Reconcile web_templates (''default'', ''web'') (store_of web_deleted)
     = (Inr (), tick (CGet (KService, ''default'', ''web'')) True (store_of web_deleted))
   \<and> lookup (tick (CGet (KService, ''default'', ''web'')) True (store_of web_deleted))
       (KService, ''default'', ''web'') = Some web_deleted"
proof -
  have pre: "\<not> fault (store_of web_deleted) (calls (store_of web_deleted))"
    "lookup (store_of web_deleted) (KService, ''default'', ''web'') = Some web_deleted"
    "disabled web_deleted" "ContainsFinalizer web_deleted finalizer"
    "gm_get (m_annotations (meta web_deleted)) deviceIDAnnotation = None"
    by (simp_all add: scenario_simps)
  show ?thesis by (rule Passes.Reconcile_finalizer_kept [OF pre])
qed

theorem Reconcile_disabled_no_writes_witness:
  "Reconcile web_templates (''default'', ''web'') (store_of web_never)
     = (Inr (), tick (CGet (KService, ''default'', ''web'')) True (store_of web_never))"
proof -
  have pre: "\<not> fault (store_of web_never) (calls (store_of web_never))"
    "lookup (store_of web_never) (KService, ''default'', ''web'') = Some web_never"
    "disabled web_never" "\<not> ContainsFinalizer web_never finalizer"
    by (simp_all add: scenario_simps)
  show ?thesis by (rule Passes.Reconcile_disabled_no_writes [OF pre])
qed

theorem Reconcile_not_found_witness:
  "Reconcile web_templates (''default'', ''api'') web_store
     = (Inl ENotFound, tick (CGet (KService, ''default'', ''api'')) False web_store)"
proof -
  have pre: "\<not> fault web_store (calls web_store)" "lookup web_store (KService, ''default'', ''api'') = None"
    by (simp_all add: scenario_simps)
  show ?thesis by (rule Passes.Reconcile_not_found [OF pre])
qed

lemma web_done_provisioned: "provisioned web_templates web_fin web_done_store"
  by (simp add: scenario_simps provisioned_def desired_def desired_svc_spec_def sts_desired_def
      hostName_def svc_clusterIP_def addOrUpdateEnv_def destIPKey_def literal_env_def Let_def
      child_ok_def svc_child_key_def sts_child_key_def childName_def sts_spec_eq_def svc_spec_eq_def
      sel_eq_def gm_eq_iff fun_eq_iff owner_ref_of_def referSameObject_def gv_group_def)

theorem Reconcile_idempotent_witness:
  "Reconcile web_templates (''default'', ''web'') web_done_store =
     (Inr (), tick (CGet (KStatefulSet, ''default'', ''web-tailscale'')) True
       (tick (CGet (KService, ''default'', ''web-tailscale'')) True
         (tick (CUpdate (KService, ''default'', ''web'')) True
           (tick (CGet (KService, ''default'', ''web'')) True web_done_store))))"
proof -
  have pre: "healthy web_done_store" "store_wf web_done_store"
    "lookup web_done_store (KService, ''default'', ''web'') = Some web_fin"
    "\<not> disabled web_fin" "ContainsFinalizer web_fin finalizer"
    by (simp_all add: scenario_simps)
  note pr = web_done_provisioned
  have keys: "svc_child_key web_fin = (KService, ''default'', ''web-tailscale'')"
    "sts_child_key web_fin = (KStatefulSet, ''default'', ''web-tailscale'')"
    by (simp_all add: scenario_simps svc_child_key_def sts_child_key_def childName_def)
  show ?thesis using Convergence.Reconcile_idempotent [OF pre pr] keys by simp
qed

lemma web_sts_desired: "sts_desired web_svc (''tailscale'', web_sts_template) = Inr web_workload_spec"
  by (simp add: web_defs sts_desired_def hostName_def svc_clusterIP_def addOrUpdateEnv_def destIPKey_def Let_def)

theorem sts_desired_spec_witness:
  "(\<exists>c0 cs. p_containers (pt_spec (t_template web_sts_template)) = c0 # cs \<and>
       p_containers (pt_spec (t_template web_workload_spec)) = addOrUpdateEnv destIPKey (svc_clusterIP web_svc) c0 # cs)
   \<and> hostName web_svc = Inr (p_hostname (pt_spec (t_template web_workload_spec)))
   \<and> gm_get (pt_labels (t_template web_workload_spec)) ''svc'' = Some (m_name (meta web_svc))
   \<and> (\<exists>sel. t_selector web_workload_spec = Some sel \<and> gm_get (matchLabels sel) ''svc'' = Some (m_name (meta web_svc)))
   \<and> t_replicas web_workload_spec = t_replicas web_sts_template \<and> t_serviceName web_workload_spec = ''tailscale''"
  by (rule Builder.sts_desired_spec [OF web_sts_desired])

theorem addOrUpdateEnv_sets_key_witness:
  "count_name ''DEST_IP'' (c_env (addOrUpdateEnv ''DEST_IP'' ''10.0.0.5'' ts_container)) = 1
   \<and> env_effective (c_env (addOrUpdateEnv ''DEST_IP'' ''10.0.0.5'' ts_container)) ''DEST_IP'' = Some (''10.0.0.5'', None)
   \<and> env_effective (c_env (addOrUpdateEnv ''DEST_IP'' ''10.0.0.5'' ts_container)) ''TS_AUTHKEY''
          = env_effective (c_env ts_container) ''TS_AUTHKEY''"
proof -
  have "count_name ''DEST_IP'' (c_env ts_container) \<le> 1" by (simp add: web_defs count_name_def)
  note t = Env.addOrUpdateEnv_sets_key [OF this]
  have other: "env_effective (c_env (addOrUpdateEnv ''DEST_IP'' ''10.0.0.5'' ts_container)) ''TS_AUTHKEY''
          = env_effective (c_env ts_container) ''TS_AUTHKEY''"
    by (rule mp [OF spec [OF t [THEN conjunct2, THEN conjunct2]]]) simp
  from t [THEN conjunct1] t [THEN conjunct2, THEN conjunct1] other show ?thesis by (intro conjI)
qed

theorem addOrUpdateEnv_duplicate_kept_witness:
  "env_effective (c_env (addOrUpdateEnv ''DEST_IP'' ''10.0.0.5'' dup_container)) ''DEST_IP''
     = Some (''10.8.8.8'', None)"
proof -
  have "2 \<le> count_name ''DEST_IP'' (c_env dup_container)" by (simp add: web_defs count_name_def literal_env_def)
  from Env.addOrUpdateEnv_duplicate_kept [OF this] show ?thesis
    by (simp add: web_defs env_effective_def literal_env_def)
qed

theorem hostName_eq_iff_witness:
  "(''web-abcd1234'' = ''web-abcd1234'') \<longleftrightarrow>
     m_name (meta web_svc) = m_name (meta web_twin) \<and> take 8 (m_uid (meta web_svc)) = take 8 (m_uid (meta web_twin))"
proof -
  have a: "hostName web_svc = Inr ''web-abcd1234''" and b: "hostName web_twin = Inr ''web-abcd1234''"
    by (simp_all add: web_defs hostName_def)
  show ?thesis by (rule Naming.hostName_eq_iff [OF a b])
qed

theorem mutate_keeps_labels_witness:
  "gm_get (m_labels (meta (projr (svc_mutate web_svc web_svc_template stale_child)))) ''app''
     = gm_get (m_labels (meta stale_child)) ''app''
   \<and> gm_get (m_labels (meta (projr (sts_mutate web_svc web_workload_spec stale_child)))) ''app''
     = gm_get (m_labels (meta stale_child)) ''app''"
proof -
  have s: "svc_mutate web_svc web_svc_template stale_child = Inr (projr (svc_mutate web_svc web_svc_template stale_child))"
    and t: "sts_mutate web_svc web_workload_spec stale_child = Inr (projr (sts_mutate web_svc web_workload_spec stale_child))"
    by (simp_all add: web_defs new_meta_def svc_mutate_def sts_mutate_def)
  have k: "''app'' \<noteq> ''svc''" by simp
  show ?thesis by (rule Builder.mutate_keeps_labels [OF k s t])
qed

theorem Reconcile_template_error_witness:
  "\<exists>st'. Reconcile broken_templates (''default'', ''web'') (store_of web_svc)
       = (Inl (EParse ''open svc.yaml: no such file or directory''), st')
     \<and> (\<exists>p'. lookup st' (KService, ''default'', ''web'') = Some p' \<and> ContainsFinalizer p' finalizer)
     \<and> (\<forall>k. k \<noteq> (KService, ''default'', ''web'') \<longrightarrow> lookup st' k = lookup (store_of web_svc) k)"
proof -
  have pre: "healthy (store_of web_svc)" "store_wf (store_of web_svc)"
    "lookup (store_of web_svc) (KService, ''default'', ''web'') = Some web_svc" "\<not> disabled web_svc"
    "svc_yaml broken_templates = Inl (EParse ''open svc.yaml: no such file or directory'')"
    by (simp_all add: scenario_simps)
  show ?thesis by (rule Failures.Reconcile_template_error [OF pre])
qed

theorem Reconcile_short_uid_witness:
  "\<exists>st'. Reconcile web_templates (''default'', ''web'') (store_of web_short)
       = (Inl (EPanic ''slice bounds out of range''), st')
     \<and> (\<exists>p'. lookup st' (KService, ''default'', ''web'') = Some p' \<and> ContainsFinalizer p' finalizer)
     \<and> child_ok web_short (SvcSpec (web_svc_template\<lparr>s_selector := Some [(''svc'', ''web'')]\<rparr>))
         (lookup st' (svc_child_key web_short))
     \<and> lookup st' (sts_child_key web_short) = lookup (store_of web_short) (sts_child_key web_short)"
proof -
  have pre: "healthy (store_of web_short)" "store_wf (store_of web_short)"
    "lookup (store_of web_short) (KService, ''default'', ''web'') = Some web_short" "\<not> disabled web_short"
    "length (m_uid (meta web_short)) < 8" "svc_yaml web_templates = Inr web_svc_template"
    "desired_svc_spec web_short web_svc_template = Inr (web_svc_template\<lparr>s_selector := Some [(''svc'', ''web'')]\<rparr>)"
    "sts_yaml web_templates = Inr (''tailscale'', web_sts_template)"
    "p_containers (pt_spec (t_template web_sts_template)) \<noteq> []" "children_labelled (store_of web_short) web_short"
    by (simp_all add: scenario_simps desired_svc_spec_def children_labelled_def svc_child_key_def
        sts_child_key_def childName_def)
  show ?thesis by (rule Failures.Reconcile_short_uid [OF pre])
qed

theorem child_events_not_enqueued_witness:
  "requests (projr (SetOwnerReference web_svc (sts_orig web_svc))) = []"
proof -
  have a: "list_all (\<lambda>r. or_controller r = None) (m_owners (meta (sts_orig web_svc)))"
    by (simp add: sts_orig_def new_meta_def)
  have s: "SetOwnerReference web_svc (sts_orig web_svc) = Inr (projr (SetOwnerReference web_svc (sts_orig web_svc)))"
    by (simp add: SetOwnerReference_def validateOwner_def sts_orig_def new_meta_def web_defs)
  from Watch.child_events_not_enqueued [OF a s] show ?thesis by (simp add: sts_orig_def)
qed

theorem deletion_blocked_witness:
  "pinned_at (KService, ''default'', ''web'')
     (snd (Reconcile web_templates (''default'', ''web'') (store_of web_deleted)))"
proof -
  have run: "operator_run web_templates (store_of web_deleted)
      (snd (Reconcile web_templates (''default'', ''web'') (store_of web_deleted)))"
    by (rule operator_run.pass [OF operator_run.start, where req = "(''default'', ''web'')"
          and r = "fst (Reconcile web_templates (''default'', ''web'') (store_of web_deleted))"]) simp
  have wf: "store_wf (store_of web_deleted)" by (simp add: scenario_simps)
  have pin: "pinned_at (KService, ''default'', ''web'') (store_of web_deleted)"
    by (simp add: scenario_simps pinned_at_def pinned_def)
  show ?thesis by (rule Cluster.deletion_blocked [OF run wf pin])
qed

theorem Reconcile_refines_witness:
  "healthy web_store \<and> store_wf web_store \<and> lookup web_store (KService, ''default'', ''web'') = Some web_svc
   \<and> children_labelled web_store web_svc
   \<and> map_prod id view (Reconcile web_templates (''default'', ''web'') web_store)
       = reconcile_spec web_templates web_svc (view web_store)"
  using Refinement.Reconcile_refines [OF web_pre(1-3) web_pre(5)] web_pre by simp

lemma web_desired_eq:
  "desired web_templates web_svc =
     Inr (\<lparr>s_selector = Some [(''svc'', ''web'')], s_clusterIP = [], s_ports = [41641]\<rparr>, web_workload_spec)"
  by (simp add: web_defs desired_def desired_svc_spec_def sts_desired_def hostName_def
      svc_clusterIP_def addOrUpdateEnv_def destIPKey_def Let_def)

theorem process_drains_witness:
  "lookup web_store (svc_child_key web_svc) = None \<and> lookup web_store (sts_child_key web_svc) = None
   \<and> enqueue_owner web_svc = []
   \<and> (\<exists>st'. process 3 web_templates [(''default'', ''web'')] web_store = Some st'
        \<and> provisioned web_templates web_svc st'
        \<and> (\<exists>p'. lookup st' (KService, ''default'', ''web'') = Some p' \<and> ContainsFinalizer p' finalizer))"
proof -
  have f: "lookup web_store (svc_child_key web_svc) = None" "lookup web_store (sts_child_key web_svc) = None"
    by (simp_all add: web_defs lookup_def svc_child_key_def sts_child_key_def childName_def)
  have o: "enqueue_owner web_svc = []" by (simp add: web_defs enqueue_owner_def controller_of_def)
  show ?thesis using Queue.process_drains [OF web_pre(1-4) web_desired_eq f o] f o by blast
qed

theorem owner_ref_roundtrip_witness:
  "\<exists>st' ch1 r1 ch2 r2. Reconcile web_templates (''default'', ''web'') web_store = (Inr (), st')
     \<and> lookup st' (svc_child_key web_svc) = Some ch1 \<and> r1 \<in> set (m_owners (meta ch1))
     \<and> resolve_owner st' (m_namespace (meta ch1)) r1 = lookup st' (KService, ''default'', ''web'')
     \<and> lookup st' (sts_child_key web_svc) = Some ch2 \<and> r2 \<in> set (m_owners (meta ch2))
     \<and> resolve_owner st' (m_namespace (meta ch2)) r2 = lookup st' (KService, ''default'', ''web'')"
  by (rule Collector.owner_ref_roundtrip [OF web_pre(1-4) web_desired_eq web_pre(5)])

theorem gc_keeps_children_witness:
  "\<exists>st'. Reconcile web_templates (''default'', ''web'') web_store = (Inr (), st')
     \<and> lookup st' (svc_child_key web_svc) \<noteq> None \<and> lookup st' (sts_child_key web_svc) \<noteq> None
     \<and> lookup (gc_sweep st') (svc_child_key web_svc) = lookup st' (svc_child_key web_svc)
     \<and> lookup (gc_sweep st') (sts_child_key web_svc) = lookup st' (sts_child_key web_svc)"
  by (rule Collector.gc_keeps_children [OF web_pre(1-4) web_desired_eq web_pre(5)])

theorem teardown_collects_witness:
  "lookup (gc_sweep (snd (Reconcile web_templates (''default'', ''web'') web_gone_store))) (KService, ''default'', ''web'') = None
   \<and> lookup (gc_sweep (snd (Reconcile web_templates (''default'', ''web'') web_gone_store))) (svc_child_key web_gone) = None
   \<and> lookup (gc_sweep (snd (Reconcile web_templates (''default'', ''web'') web_gone_store))) (sts_child_key web_gone) = None"
proof -
  have keys: "svc_child_key web_gone = (KService, ''default'', ''web-tailscale'')"
    "sts_child_key web_gone = (KStatefulSet, ''default'', ''web-tailscale'')"
    by (simp_all add: scenario_simps svc_child_key_def sts_child_key_def childName_def)
  have pre: "healthy web_gone_store" "store_wf web_gone_store"
    "lookup web_gone_store (KService, ''default'', ''web'') = Some web_gone"
    "m_deletion (meta web_gone) \<noteq> None" "m_finalizers (meta web_gone) = [finalizer]"
    "gm_get (m_annotations (meta web_gone)) deviceIDAnnotation \<noteq> None"
    by (simp_all add: scenario_simps)
  have ch: "lookup web_gone_store (svc_child_key web_gone) = Some web_route"
    "m_owners (meta web_route) = [owner_ref_of web_gone]" "m_finalizers (meta web_route) = []"
    "lookup web_gone_store (sts_child_key web_gone) = Some web_workload"
    "m_owners (meta web_workload) = [owner_ref_of web_gone]" "m_finalizers (meta web_workload) = []"
    using keys by (simp_all add: scenario_simps owner_ref_of_def)
  show ?thesis by (rule Collector.teardown_collects [OF pre ch])
qed

theorem template_error_requeued_witness:
  "svc_yaml broken_templates = Inl (EParse ''open svc.yaml: no such file or directory'')
   \<and> enqueue_owner web_svc = [] \<and> process 5 broken_templates [(''default'', ''web'')] web_store = None"
proof -
  have y: "svc_yaml broken_templates = Inl (EParse ''open svc.yaml: no such file or directory'')"
    by (simp add: web_defs)
  have o: "enqueue_owner web_svc = []" by (simp add: web_defs enqueue_owner_def controller_of_def)
  show ?thesis using Queue.template_error_requeued [OF web_pre(1-4) y o, of 5] y o by simp
qed

theorem interleaved_no_lost_update_witness:
  "\<exists>u s2. client_Update web_edit (tick (CGet (KService, ''default'', ''web'')) True web_store) = (Inr u, s2)
     \<and> lookup (snd (interleaved web_templates (''default'', ''web'') (client_Update web_edit) web_store)) = lookup s2"
proof -
  let ?s1 = "tick (CGet (KService, ''default'', ''web'')) True web_store"
  have g: "client_Get (KService, ''default'', ''web'') web_store = (Inr web_svc, ?s1)"
    using web_pre(1,3) by (simp add: client_Get_found)
  have k: "key_of web_edit = (KService, ''default'', ''web'')" by (simp add: scenario_simps)
  have nn: "\<not> noop_update web_svc web_edit" by (simp add: noop_update_def web_defs)
  have "lookup ?s1 (key_of web_edit) = Some web_svc" "m_rv (meta web_svc) = m_rv (meta web_edit)"
    "m_deletion (meta web_svc) = None" using web_pre(3) k by (simp_all add: web_defs)
  then obtain u s2 where w: "client_Update web_edit ?s1 = (Inr u, s2)"
    using client_Update_ok [of ?s1 web_edit web_svc] web_pre(1) nn by auto
  show ?thesis using Interleave.interleaved_no_lost_update [OF web_pre(2) g w k nn] w by blast
qed

theorem generated_names_valid_witness:
  "dns1035_label (m_name (meta web_long)) \<and> list_all lower_alnum (take 8 (m_uid (meta web_long)))
   \<and> 8 \<le> length (m_uid (meta web_long))
   \<and> \<not> dns1035_label (childName web_long) \<and> (\<exists>h. hostName web_long = Inr h \<and> \<not> dns1123_label h)"
proof -
  have pre: "dns1035_label (m_name (meta web_long))" "list_all lower_alnum (take 8 (m_uid (meta web_long)))"
    "8 \<le> length (m_uid (meta web_long))"
    by (simp_all add: web_defs dns1035_label_def dns1123_label_def dns_char_def lower_alnum_def lower_alpha_def)
  have len: "length (m_name (meta web_long)) = 60" by (simp add: web_defs)
  show ?thesis using DnsNames.generated_names_valid [OF pre] pre len by auto
qed

lemma two_pre:
  "healthy two_store" "store_wf two_store"
  "lookup two_store (KService, ''default'', ''web'') = Some web_svc"
  "lookup two_store (KService, ''default'', ''api'') = Some api_svc"
  "children_labelled two_store web_svc" "children_labelled two_store api_svc"
  "pass_keys (''default'', ''web'') \<inter> pass_keys (''default'', ''api'') = {}"
  by (simp_all add: web_defs api_svc_def two_store_def store_wf_def obj_wf_def key_of_def lookup_def
      children_labelled_def svc_child_key_def sts_child_key_def childName_def pass_keys_def)

theorem passes_commute_witness:
  "fst (Reconcile web_templates (''default'', ''api'') (snd (Reconcile web_templates (''default'', ''web'') two_store)))
     = fst (Reconcile web_templates (''default'', ''api'') two_store)
   \<and> fst (Reconcile web_templates (''default'', ''web'') (snd (Reconcile web_templates (''default'', ''api'') two_store)))
     = fst (Reconcile web_templates (''default'', ''web'') two_store)
   \<and> view (snd (Reconcile web_templates (''default'', ''api'') (snd (Reconcile web_templates (''default'', ''web'') two_store))))
     = view (snd (Reconcile web_templates (''default'', ''web'') (snd (Reconcile web_templates (''default'', ''api'') two_store))))"
  by (rule Concurrency.passes_commute [OF two_pre])

theorem retries_provision_witness:
  "store_wf crash_store \<and> lookup crash_store (KService, ''default'', ''web'') = Some web_svc
   \<and> \<not> disabled web_svc \<and> children_labelled crash_store web_svc
   \<and> (\<exists>st' p'. Reconcile web_templates (''default'', ''web'')
          ((((\<lambda>s. snd (Reconcile web_templates (''default'', ''web'') s)) ^^ 1) crash_store)\<lparr>fault := (\<lambda>_. False)\<rparr>)
        = (Inr (), st') \<and> provisioned web_templates web_svc st'
        \<and> lookup st' (KService, ''default'', ''web'') = Some p' \<and> ContainsFinalizer p' finalizer)"
proof -
  have pre: "store_wf crash_store" "lookup crash_store (KService, ''default'', ''web'') = Some web_svc"
    "children_labelled crash_store web_svc"
    using web_pre(2,3,5) by (simp_all add: crash_store_def store_wf_def lookup_def children_labelled_def)
  show ?thesis
    using Recovery.retries_provision [OF pre(1,2) web_pre(4) web_desired_eq pre(3), where n = 1] pre web_pre(4)
    by blast
qed

theorem service_adopted_witness:
  "lookup taken_store (svc_child_key web_svc) = Some user_route
   \<and> (\<exists>st' c'. Reconcile web_templates (''default'', ''web'') taken_store = (Inr (), st')
        \<and> lookup st' (svc_child_key web_svc) = Some c'
        \<and> gm_get (m_annotations (meta c')) = gm_get (m_annotations (meta user_route))
        \<and> m_finalizers (meta c') = m_finalizers (meta user_route)
        \<and> gm_get (m_labels (meta c')) = (gm_get (m_labels (meta user_route)))(''svc'' \<mapsto> ''web'')
        \<and> m_owners (meta c') = [owner_ref_of web_svc]
        \<and> kspec_eq (spec c') (SvcSpec \<lparr>s_selector = Some [(''svc'', ''web'')], s_clusterIP = [], s_ports = [41641]\<rparr>))"
proof -
  have pre: "healthy taken_store" "store_wf taken_store"
    "lookup taken_store (KService, ''default'', ''web'') = Some web_svc"
    "children_labelled taken_store web_svc" "lookup taken_store (svc_child_key web_svc) = Some user_route"
    by (simp_all add: web_defs user_route_def taken_store_def store_wf_def obj_wf_def key_of_def lookup_def
        children_labelled_def svc_child_key_def sts_child_key_def childName_def)
  have o: "m_owners (meta user_route) = []" "m_name (meta web_svc) = ''web''"
    by (simp_all add: user_route_def web_defs)
  show ?thesis
    using Adoption.service_adopted [OF pre(1-3) web_pre(4) web_desired_eq pre(4,5)] pre(5) o by simp
qed

theorem Reconcile_cost_witness:
  "calls web_store < calls (snd (Reconcile web_templates (''default'', ''web'') web_store))
   \<and> calls (snd (Reconcile web_templates (''default'', ''web'') web_store)) \<le> calls web_store + 6
   \<and> rv_next web_store \<le> rv_next (snd (Reconcile web_templates (''default'', ''web'') web_store))
   \<and> rv_next (snd (Reconcile web_templates (''default'', ''web'') web_store)) \<le> rv_next web_store + 3"
  by (rule Cost.Reconcile_cost [OF prod.collapse [symmetric]])

theorem disable_keeps_children_witness:
  "lookup (gc_sweep (snd (Reconcile web_templates (''default'', ''web'') off_store))) (svc_child_key web_off) = Some web_route
   \<and> lookup (gc_sweep (snd (Reconcile web_templates (''default'', ''web'') off_store))) (sts_child_key web_off) = Some web_workload"
proof -
  have pre: "store_wf off_store" "lookup off_store (KService, ''default'', ''web'') = Some web_off"
    "disabled web_off" "m_deletion (meta web_off) = None"
    by (simp_all add: scenario_simps off_store_def)
  have pr: "provisioned web_templates web_off off_store"
    by (simp add: scenario_simps off_store_def provisioned_def desired_def desired_svc_spec_def sts_desired_def
      hostName_def svc_clusterIP_def addOrUpdateEnv_def destIPKey_def literal_env_def Let_def
      child_ok_def svc_child_key_def sts_child_key_def childName_def sts_spec_eq_def svc_spec_eq_def
      sel_eq_def gm_eq_iff fun_eq_iff owner_ref_of_def referSameObject_def gv_group_def)
  have ch: "lookup off_store (svc_child_key web_off) = Some web_route"
    "lookup off_store (sts_child_key web_off) = Some web_workload"
    by (simp_all add: scenario_simps off_store_def svc_child_key_def sts_child_key_def childName_def)
  show ?thesis using Disable.disable_keeps_children [OF pre pr prod.collapse [symmetric]] ch by simp
qed

theorem missing_parent_requeued_witness:
  "lookup web_store (KService, ''default'', ''api'') = None
   \<and> process 4 web_templates [(''default'', ''api'')] web_store = None"
proof -
  have m: "lookup web_store (KService, ''default'', ''api'') = None" by (simp add: scenario_simps)
  show ?thesis using Queue.missing_parent_requeued [OF m, where n = 4 and tp = web_templates] m by simp
qed

theorem hostName_bounds_witness:
  "hostName web_short = Inl (EPanic ''slice bounds out of range'')
   \<and> (\<exists>h. hostName web_svc = Inr h \<and> length h = 12)"
  using Naming.hostName_bounds [of web_short] Naming.hostName_bounds [of web_svc] by (simp add: web_defs)

end
